theory Spec2Isabelle
  imports Main "HOL-Library.Word" "HOL-Library.Sublist"
begin

unbundle bit_operations_syntax

section \<open>The netpoll pollers of gnet (epoll and kqueue backends)\<close>

text \<open>
  The two source files \<^verbatim>\<open>internal/netpoll/epoll.go\<close> (Linux) and the kqueue file
  (Darwin and the BSDs) declare the same names under different build tags. The embedding
  keeps the names and marks the backend with the suffix \<open>_epoll\<close> or \<open>_kqueue\<close>.

  Go's \<open>int\<close> is modelled as \<open>int\<close>: the only arithmetic the pollers do on it is the
  loop counter \<open>i++\<close>, bounded by \<open>n\<close>. Fixed-width fields of kernel records are words.

  A Go \<open>error\<close> is a value of the datatype \<open>error\<close>; \<open>nil\<close> is \<open>None\<close> of
  \<open>error option\<close>. \<open>Errno k\<close> is \<open>syscall.Errno(k)\<close>; \<open>Failure k\<close> stands for any other
  error value (what a callback or a job of the surrounding framework returns).
\<close>

datatype error = Errno nat | Failure nat

definition EINTR :: error where
  "EINTR = Errno 4"

subsection \<open>Kernel records and system calls\<close>

text \<open>\<open>unix.EpollEvent\<close>: the event mask (uint32) and the descriptor (int32).\<close>

record EpollEvent =
  Events :: "32 word"
  Fd :: "32 word"

text \<open>
  \<open>unix.Kevent_t\<close>: identifier (uint64), filter (int16), flags (uint16), filter flags
  (uint32). The fields \<open>Data\<close> and \<open>Udata\<close> are never read or set by the poller.
\<close>

record Kevent_t =
  Ident :: "64 word"
  Filter :: "16 word"
  Flags :: "16 word"
  Fflags :: "32 word"

datatype epoll_op = EPOLL_CTL_ADD | EPOLL_CTL_DEL | EPOLL_CTL_MOD

text \<open>
  The system calls the pollers issue, with their arguments. \<open>SysWrite fd bytes\<close> and
  \<open>SysRead fd count\<close> carry the buffer written and the length of the buffer read into;
  \<open>EpollWait epfd maxevents msec\<close> and \<open>Kevent kq changes nevents\<close> carry the length of
  the event buffer handed to the kernel.
\<close>

datatype syscall =
    EpollCreate1
  | Eventfd2
  | SysClose int
  | SysWrite int "8 word list"
  | SysRead int nat
  | EpollCtl int epoll_op int "EpollEvent option"
  | EpollWait int nat int
  | Kqueue
  | Kevent int "Kevent_t list" nat

text \<open>Constants of \<open>golang.org/x/sys/unix\<close> (the values of Linux and of Darwin).\<close>

definition EPOLLIN :: "32 word" where "EPOLLIN = 0x1"
definition EPOLLPRI :: "32 word" where "EPOLLPRI = 0x2"
definition EPOLLOUT :: "32 word" where "EPOLLOUT = 0x4"

definition readEvents :: "32 word" where
  "readEvents = EPOLLPRI OR EPOLLIN"

definition writeEvents :: "32 word" where
  "writeEvents = EPOLLOUT"

definition readWriteEvents :: "32 word" where
  "readWriteEvents = readEvents OR writeEvents"

definition EVFILT_READ :: "16 word" where "EVFILT_READ = - 0x1"
definition EVFILT_WRITE :: "16 word" where "EVFILT_WRITE = - 0x2"
definition EVFILT_USER :: "16 word" where "EVFILT_USER = - 0xa"
definition EV_ADD :: "16 word" where "EV_ADD = 0x1"
definition EV_CLEAR :: "16 word" where "EV_CLEAR = 0x20"
definition EV_ERROR :: "16 word" where "EV_ERROR = 0x4000"
definition EV_EOF :: "16 word" where "EV_EOF = 0x8000"
definition NOTE_TRIGGER :: "32 word" where "NOTE_TRIGGER = 0x1000000"

subsection \<open>The job queue\<close>

text \<open>
  A job is a Go closure \<open>func() error\<close>. A closure cannot be a HOL value that acts on a
  state holding closures, so a job is an identifier and its behaviour is given by an
  interpretation \<open>run :: Job \<Rightarrow> 's \<Rightarrow> 's reaction\<close> over the state \<open>'s\<close> of the surrounding
  framework: the state it leaves, the jobs pushed onto the poller's queue while it ran,
  and the error it returns. The callback handed to \<open>Polling\<close> reacts the same way.
\<close>

type_synonym Job = nat

record 's reaction =
  app_after :: 's
  pushed :: "Job list"
  result :: "error option"

text \<open>
  Modelled from the spec: \<open>internal.AsyncJobQueue\<close> with \<open>NewAsyncJobQueue\<close>, \<open>Push\<close>
  and \<open>ForEach\<close> is declared outside the given sources. By the spec it is an ordered
  sequence of jobs (insertion order is execution order); \<open>Push\<close> appends the job and
  returns the queue length immediately after the insertion.
\<close>

record AsyncJobQueue =
  jobs :: "Job list"

definition NewAsyncJobQueue :: AsyncJobQueue where
  "NewAsyncJobQueue = \<lparr>jobs = []\<rparr>"

definition Push :: "Job \<Rightarrow> AsyncJobQueue \<Rightarrow> int \<times> AsyncJobQueue" where
  "Push job q = (let q' = q\<lparr>jobs := jobs q @ [job]\<rparr> in (int (length (jobs q')), q'))"

subsection \<open>Epoll backend: lifecycle, registration, trigger\<close>

text \<open>
  The field \<open>wfdBuf\<close> is a scratch buffer of eight bytes that is only ever passed to
  \<open>unix.Read\<close>; its contents are never inspected, so the record keeps the handles and the
  queue, and \<open>SysRead\<close> carries the buffer length.
\<close>

record Poller_epoll =
  fd :: int
  wfd :: int
  asyncJobQueue :: AsyncJobQueue

text \<open>
  \<open>AddRead\<close>: one \<open>EpollCtl\<close> call whose result is returned. Every operation takes the
  kernel's answer to each system call it may issue as an argument, and returns the
  system calls it did issue, in order, beside its own result.
\<close>

definition AddRead_epoll :: "Poller_epoll \<Rightarrow> int \<Rightarrow> error option \<Rightarrow> error option \<times> syscall list" where
  "AddRead_epoll p d r_ctl =
     (r_ctl, [EpollCtl (fd p) EPOLL_CTL_ADD d (Some \<lparr>Events = readEvents, Fd = word_of_int d\<rparr>)])"

text \<open>
  \<open>OpenPoller\<close>. \<open>r_create\<close> answers \<open>EpollCreate1\<close> (an error or the descriptor),
  \<open>r_eventfd = (r0, errno)\<close> answers the raw \<open>eventfd2\<close> call, \<open>r_ctl\<close> answers the
  registration of the wake descriptor.
\<close>

definition OpenPoller_epoll ::
  "error + int \<Rightarrow> int \<times> nat \<Rightarrow> error option \<Rightarrow> (error + Poller_epoll) \<times> syscall list" where
  "OpenPoller_epoll r_create r_eventfd r_ctl =
     (case r_create of
        Inl err \<Rightarrow> (Inl err, [EpollCreate1])
      | Inr epollFD \<Rightarrow>
          (case r_eventfd of (r0, errno) \<Rightarrow>
             if errno \<noteq> 0 then (Inl (Errno errno), [EpollCreate1, Eventfd2, SysClose epollFD])
             else
               (let poller = \<lparr>fd = epollFD, wfd = r0, asyncJobQueue = NewAsyncJobQueue\<rparr> in
                case AddRead_epoll poller (wfd poller) r_ctl of
                  (Some err, calls) \<Rightarrow> (Inl err, [EpollCreate1, Eventfd2] @ calls)
                | (None, calls) \<Rightarrow> (Inr poller, [EpollCreate1, Eventfd2] @ calls))))"

text \<open>\<open>Close\<close>: \<open>r_wfd\<close> and \<open>r_fd\<close> answer the two \<open>close\<close> calls.\<close>

definition Close_epoll :: "Poller_epoll \<Rightarrow> error option \<Rightarrow> error option \<Rightarrow> error option \<times> syscall list" where
  "Close_epoll p r_wfd r_fd =
     (case r_wfd of
        Some err \<Rightarrow> (Some err, [SysClose (wfd p)])
      | None \<Rightarrow> (r_fd, [SysClose (wfd p), SysClose (fd p)]))"

text \<open>
  The eight bytes \<open>b\<close> of the \<open>uint64\<close> value 1 in the byte order of the machine.
\<close>

datatype byte_order = LittleEndian | BigEndian

fun b :: "byte_order \<Rightarrow> 8 word list" where
  "b LittleEndian = [1, 0, 0, 0, 0, 0, 0, 0]"
| "b BigEndian = [0, 0, 0, 0, 0, 0, 0, 1]"

text \<open>\<open>Trigger\<close>: \<open>r_write\<close> is the error of the \<open>write\<close> call, if it is issued.\<close>

definition Trigger_epoll ::
  "byte_order \<Rightarrow> Poller_epoll \<Rightarrow> Job \<Rightarrow> error option \<Rightarrow> error option \<times> Poller_epoll \<times> syscall list" where
  "Trigger_epoll bo p job r_write =
     (case Push job (asyncJobQueue p) of (len, q) \<Rightarrow>
        if len = 1 then (r_write, p\<lparr>asyncJobQueue := q\<rparr>, [SysWrite (wfd p) (b bo)])
        else (None, p\<lparr>asyncJobQueue := q\<rparr>, []))"

text \<open>\<open>Delete\<close>: \<open>r_ctl\<close> answers the \<open>EpollCtl\<close> call.\<close>

definition Delete_epoll :: "Poller_epoll \<Rightarrow> int \<Rightarrow> error option \<Rightarrow> error option \<times> syscall list" where
  "Delete_epoll p d r_ctl = (r_ctl, [EpollCtl (fd p) EPOLL_CTL_DEL d None])"

subsection \<open>Kqueue backend: lifecycle, registration, trigger\<close>

record Poller_kqueue =
  kfd :: int
  kq_asyncJobQueue :: AsyncJobQueue

text \<open>
  \<open>OpenPoller\<close>. \<open>r_kqueue\<close> answers \<open>unix.Kqueue\<close>, \<open>r_kevent\<close> is the error of the
  \<open>Kevent\<close> call that registers the user filter.
\<close>

definition OpenPoller_kqueue ::
  "error + int \<Rightarrow> error option \<Rightarrow> (error + Poller_kqueue) \<times> syscall list" where
  "OpenPoller_kqueue r_kqueue r_kevent =
     (case r_kqueue of
        Inl err \<Rightarrow> (Inl err, [Kqueue])
      | Inr kq \<Rightarrow>
          (let calls = [Kqueue,
                 Kevent kq [\<lparr>Ident = 0, Filter = EVFILT_USER, Flags = EV_ADD OR EV_CLEAR, Fflags = 0\<rparr>] 0] in
           case r_kevent of
             Some err \<Rightarrow> (Inl err, calls)
           | None \<Rightarrow> (Inr \<lparr>kfd = kq, kq_asyncJobQueue = NewAsyncJobQueue\<rparr>, calls)))"

definition Close_kqueue :: "Poller_kqueue \<Rightarrow> error option \<Rightarrow> error option \<times> syscall list" where
  "Close_kqueue p r_fd = (r_fd, [SysClose (kfd p)])"

definition wakeChanges :: "Kevent_t list" where
  "wakeChanges = [\<lparr>Ident = 0, Filter = EVFILT_USER, Flags = 0, Fflags = NOTE_TRIGGER\<rparr>]"

definition Trigger_kqueue ::
  "Poller_kqueue \<Rightarrow> Job \<Rightarrow> error option \<Rightarrow> error option \<times> Poller_kqueue \<times> syscall list" where
  "Trigger_kqueue p job r_kevent =
     (case Push job (kq_asyncJobQueue p) of (len, q) \<Rightarrow>
        if len = 1 then (r_kevent, p\<lparr>kq_asyncJobQueue := q\<rparr>, [Kevent (kfd p) wakeChanges 0])
        else (None, p\<lparr>kq_asyncJobQueue := q\<rparr>, []))"

definition Delete_kqueue :: "Poller_kqueue \<Rightarrow> int \<Rightarrow> error option \<times> Poller_kqueue \<times> syscall list" where
  "Delete_kqueue p d = (None, p, [])"

subsection \<open>The event list and the state of the reactor loop\<close>

text \<open>
  Modelled from the spec: the type \<open>eventList\<close> with \<open>newEventList\<close> and \<open>increase\<close> is
  declared outside the given sources. By the spec it is a buffer of kernel event records
  with its capacity \<open>size\<close> kept in a field of its own; the capacity starts at a fixed
  constant and the next capacity is twice the capacity. \<open>zero\<close> is the zero value of the
  record type, which fills a fresh buffer.
\<close>

record 'e eventList =
  size_el :: int
  events :: "'e list"

definition newEventList :: "'e \<Rightarrow> int \<Rightarrow> 'e eventList" where
  "newEventList zero sz = \<lparr>size_el = sz, events = replicate (nat sz) zero\<rparr>"

definition increase :: "'e \<Rightarrow> 'e eventList \<Rightarrow> 'e eventList" where
  "increase zero l = \<lparr>size_el = 2 * size_el l, events = replicate (nat (2 * size_el l)) zero\<rparr>"

definition zero_EpollEvent :: EpollEvent where
  "zero_EpollEvent = \<lparr>Events = 0, Fd = 0\<rparr>"

definition zero_Kevent_t :: Kevent_t where
  "zero_Kevent_t = \<lparr>Ident = 0, Filter = 0, Flags = 0, Fflags = 0\<rparr>"

text \<open>
  What \<open>Polling\<close> does that can be observed, in order: its system calls, the lines it
  logs, each invocation of the callback with its arguments and the error it returned,
  each invocation of the queue's \<open>ForEach\<close>, and each job run with the error it returned.
  \<open>'m\<close> is the type of the event mask handed to the callback (uint32 on epoll, the int16
  filter on kqueue).
\<close>

datatype 'm effect =
    Sys syscall
  | Log error
  | Callback int 'm "error option"
  | ForEachCall
  | JobRun Job "error option"

text \<open>
  Everything \<open>Polling\<close> mutates: the poller's job queue, the locals \<open>el\<close> and \<open>wakenUp\<close>,
  the state of the surrounding framework (reached through the callback and the jobs), and
  the effects so far.
\<close>

record ('e, 'm, 's) loop_state =
  queue :: AsyncJobQueue
  el :: "'e eventList"
  wakenUp :: bool
  app :: 's
  trace :: "'m effect list"

text \<open>
  A callback or a job has run: the framework state is the one it left, and the jobs it
  pushed are on the queue, in the order pushed.
\<close>

definition absorb :: "'s reaction \<Rightarrow> ('e, 'm, 's) loop_state \<Rightarrow> ('e, 'm, 's) loop_state" where
  "absorb r st = st\<lparr>app := app_after r, queue := foldl (\<lambda>q j. snd (Push j q)) (queue st) (pushed r)\<rparr>"

text \<open>
  Modelled from the spec: \<open>ForEach\<close> of the job queue, declared outside the given
  sources. By the spec it swaps out the current batch of queued jobs, executes them in
  FIFO order, stops at the first job that fails and returns its error.
\<close>

fun run_batch ::
  "(Job \<Rightarrow> 's \<Rightarrow> 's reaction) \<Rightarrow> Job list \<Rightarrow> ('e, 'm, 's) loop_state
     \<Rightarrow> error option \<times> ('e, 'm, 's) loop_state" where
  "run_batch run [] st = (None, st)"
| "run_batch run (j # js) st =
     (let r = run j (app st);
          st' = (absorb r st)\<lparr>trace := trace st @ [JobRun j (result r)]\<rparr>
      in case result r of
           Some err \<Rightarrow> (Some err, st')
         | None \<Rightarrow> run_batch run js st')"

definition ForEach ::
  "(Job \<Rightarrow> 's \<Rightarrow> 's reaction) \<Rightarrow> ('e, 'm, 's) loop_state \<Rightarrow> error option \<times> ('e, 'm, 's) loop_state" where
  "ForEach run st =
     run_batch run (jobs (queue st))
       (st\<lparr>queue := (queue st)\<lparr>jobs := []\<rparr>, trace := trace st @ [ForEachCall]\<rparr>)"

text \<open>
  One return of the kernel wait call (\<open>unix.EpollWait\<close>, or \<open>unix.Kevent\<close> with an empty
  change list): the count \<open>n\<close>, the error \<open>err0\<close>, and the records the kernel wrote to the
  front of the event buffer. The buffer keeps its length; slots the kernel did not
  write keep what they held.
\<close>

record 'e wait_result =
  wait_n :: int
  wait_err :: "error option"
  wait_written :: "'e list"

definition kernel_fill :: "'e list \<Rightarrow> 'e list \<Rightarrow> 'e list" where
  "kernel_fill buf ws = take (length buf) (ws @ drop (length ws) buf)"

text \<open>
  How the dispatch loop over a batch ends: it ran to the end, the callback's error is
  returned, or an index beyond the event buffer raised Go's run-time panic.
\<close>

datatype flow = Next | Return error | IndexPanic

text \<open>
  How \<open>Polling\<close> ends on a finite sequence of wait returns: it returned an error, it
  panicked, or it is blocked in the wait call (which has no timeout) for ever.
\<close>

datatype outcome = Returned error | Panicked | Blocked

subsection \<open>Epoll backend: Polling\<close>

text \<open>The loop \<open>for i := 0; i < n; i++\<close> over the batch, from index \<open>i\<close>.\<close>

function events_loop_epoll ::
  "(int \<Rightarrow> 32 word \<Rightarrow> 's \<Rightarrow> 's reaction) \<Rightarrow> Poller_epoll \<Rightarrow> int \<Rightarrow> int
     \<Rightarrow> (EpollEvent, 32 word, 's) loop_state \<Rightarrow> flow \<times> (EpollEvent, 32 word, 's) loop_state" where
  "events_loop_epoll callback p n i st =
     (if i < n then
        (if i < 0 \<or> int (length (events (el st))) \<le> i then (IndexPanic, st)
         else
           (let e = events (el st) ! nat i; d = sint (Fd e) in
            if d \<noteq> wfd p then
              (let r = callback d (Events e) (app st);
                   st' = (absorb r st)\<lparr>trace := trace st @ [Callback d (Events e) (result r)]\<rparr>
               in case result r of
                    Some err \<Rightarrow> (Return err, st')
                  | None \<Rightarrow> events_loop_epoll callback p n (i + 1) st')
            else
              events_loop_epoll callback p n (i + 1)
                (st\<lparr>wakenUp := True, trace := trace st @ [Sys (SysRead (wfd p) 8)]\<rparr>)))
      else (Next, st))"
  by pat_completeness auto
termination
  by (relation "measure (\<lambda>(callback, p, n, i, st). nat (n - i))") auto

text \<open>The rest of an iteration, after a wait return that is not logged and skipped.\<close>

definition after_wait_epoll ::
  "(int \<Rightarrow> 32 word \<Rightarrow> 's \<Rightarrow> 's reaction) \<Rightarrow> (Job \<Rightarrow> 's \<Rightarrow> 's reaction) \<Rightarrow> Poller_epoll \<Rightarrow> int
     \<Rightarrow> (EpollEvent, 32 word, 's) loop_state
     \<Rightarrow> outcome option \<times> (EpollEvent, 32 word, 's) loop_state" where
  "after_wait_epoll callback run p n st =
     (case events_loop_epoll callback p n 0 st of
        (Return err, st') \<Rightarrow> (Some (Returned err), st')
      | (IndexPanic, st') \<Rightarrow> (Some Panicked, st')
      | (Next, st') \<Rightarrow>
          (case (if wakenUp st' then ForEach run (st'\<lparr>wakenUp := False\<rparr>) else (None, st')) of
             (Some err, st'') \<Rightarrow> (Some (Returned err), st'')
           | (None, st'') \<Rightarrow>
               (None, if n = size_el (el st'')
                      then st''\<lparr>el := increase zero_EpollEvent (el st'')\<rparr> else st'')))"

text \<open>
  One iteration of the loop of \<open>Polling\<close> on the wait return \<open>w\<close>: \<open>None\<close> when the loop
  goes on to the next wait call, \<open>Some\<close> when \<open>Polling\<close> ends.
\<close>

definition Polling_iter_epoll ::
  "(int \<Rightarrow> 32 word \<Rightarrow> 's \<Rightarrow> 's reaction) \<Rightarrow> (Job \<Rightarrow> 's \<Rightarrow> 's reaction) \<Rightarrow> Poller_epoll
     \<Rightarrow> EpollEvent wait_result \<Rightarrow> (EpollEvent, 32 word, 's) loop_state
     \<Rightarrow> outcome option \<times> (EpollEvent, 32 word, 's) loop_state" where
  "Polling_iter_epoll callback run p w st =
     (let st1 = st\<lparr>el := (el st)\<lparr>events := kernel_fill (events (el st)) (wait_written w)\<rparr>,
                    trace := trace st @ [Sys (EpollWait (fd p) (length (events (el st))) (- 1))]\<rparr>
      in case wait_err w of
           None \<Rightarrow> after_wait_epoll callback run p (wait_n w) st1
         | Some err0 \<Rightarrow>
             if err0 \<noteq> EINTR then (None, st1\<lparr>trace := trace st1 @ [Log err0]\<rparr>)
             else after_wait_epoll callback run p (wait_n w) st1)"

fun Polling_loop_epoll ::
  "(int \<Rightarrow> 32 word \<Rightarrow> 's \<Rightarrow> 's reaction) \<Rightarrow> (Job \<Rightarrow> 's \<Rightarrow> 's reaction) \<Rightarrow> Poller_epoll
     \<Rightarrow> EpollEvent wait_result list \<Rightarrow> (EpollEvent, 32 word, 's) loop_state
     \<Rightarrow> outcome \<times> (EpollEvent, 32 word, 's) loop_state" where
  "Polling_loop_epoll callback run p [] st =
     (Blocked, st\<lparr>trace := trace st @ [Sys (EpollWait (fd p) (length (events (el st))) (- 1))]\<rparr>)"
| "Polling_loop_epoll callback run p (w # ws) st =
     (case Polling_iter_epoll callback run p w st of
        (Some out, st') \<Rightarrow> (out, st')
      | (None, st') \<Rightarrow> Polling_loop_epoll callback run p ws st')"

text \<open>
  \<open>Polling\<close> on the poller \<open>p\<close>, with the constant \<open>InitEvents\<close> (declared outside the
  given sources) as a parameter, the wait returns \<open>ws\<close> of the kernel in order, and the
  framework state \<open>s0\<close> at the call.
\<close>

definition Polling_epoll ::
  "int \<Rightarrow> (int \<Rightarrow> 32 word \<Rightarrow> 's \<Rightarrow> 's reaction) \<Rightarrow> (Job \<Rightarrow> 's \<Rightarrow> 's reaction) \<Rightarrow> Poller_epoll
     \<Rightarrow> EpollEvent wait_result list \<Rightarrow> 's \<Rightarrow> outcome \<times> (EpollEvent, 32 word, 's) loop_state" where
  "Polling_epoll InitEvents callback run p ws s0 =
     Polling_loop_epoll callback run p ws
       \<lparr>queue = asyncJobQueue p, el = newEventList zero_EpollEvent InitEvents,
        wakenUp = False, app = s0, trace = []\<rparr>"

subsection \<open>Kqueue backend: Polling\<close>

text \<open>
  The loop over the batch. \<open>EVFilterSock\<close> is a constant of the package declared outside
  the given sources; it is a parameter.
\<close>

function events_loop_kqueue ::
  "16 word \<Rightarrow> (int \<Rightarrow> 16 word \<Rightarrow> 's \<Rightarrow> 's reaction) \<Rightarrow> int \<Rightarrow> int
     \<Rightarrow> (Kevent_t, 16 word, 's) loop_state \<Rightarrow> flow \<times> (Kevent_t, 16 word, 's) loop_state" where
  "events_loop_kqueue EVFilterSock callback n i st =
     (if i < n then
        (if i < 0 \<or> int (length (events (el st))) \<le> i then (IndexPanic, st)
         else
           (let e = events (el st) ! nat i; d = sint (Ident e) in
            if d \<noteq> 0 then
              (let evFilter =
                     (if Flags e AND EV_EOF \<noteq> 0 \<or> Flags e AND EV_ERROR \<noteq> 0
                      then EVFilterSock else Filter e);
                   r = callback d evFilter (app st);
                   st' = (absorb r st)\<lparr>trace := trace st @ [Callback d evFilter (result r)]\<rparr>
               in case result r of
                    Some err \<Rightarrow> (Return err, st')
                  | None \<Rightarrow> events_loop_kqueue EVFilterSock callback n (i + 1) st')
            else
              events_loop_kqueue EVFilterSock callback n (i + 1) (st\<lparr>wakenUp := True\<rparr>)))
      else (Next, st))"
  by pat_completeness auto
termination
  by (relation "measure (\<lambda>(EVFilterSock, callback, n, i, st). nat (n - i))") auto

definition after_wait_kqueue ::
  "16 word \<Rightarrow> (int \<Rightarrow> 16 word \<Rightarrow> 's \<Rightarrow> 's reaction) \<Rightarrow> (Job \<Rightarrow> 's \<Rightarrow> 's reaction) \<Rightarrow> int
     \<Rightarrow> (Kevent_t, 16 word, 's) loop_state
     \<Rightarrow> outcome option \<times> (Kevent_t, 16 word, 's) loop_state" where
  "after_wait_kqueue EVFilterSock callback run n st =
     (case events_loop_kqueue EVFilterSock callback n 0 st of
        (Return err, st') \<Rightarrow> (Some (Returned err), st')
      | (IndexPanic, st') \<Rightarrow> (Some Panicked, st')
      | (Next, st') \<Rightarrow>
          (case (if wakenUp st' then ForEach run (st'\<lparr>wakenUp := False\<rparr>) else (None, st')) of
             (Some err, st'') \<Rightarrow> (Some (Returned err), st'')
           | (None, st'') \<Rightarrow>
               (None, if n = size_el (el st'')
                      then st''\<lparr>el := increase zero_Kevent_t (el st'')\<rparr> else st'')))"

definition Polling_iter_kqueue ::
  "16 word \<Rightarrow> (int \<Rightarrow> 16 word \<Rightarrow> 's \<Rightarrow> 's reaction) \<Rightarrow> (Job \<Rightarrow> 's \<Rightarrow> 's reaction) \<Rightarrow> Poller_kqueue
     \<Rightarrow> Kevent_t wait_result \<Rightarrow> (Kevent_t, 16 word, 's) loop_state
     \<Rightarrow> outcome option \<times> (Kevent_t, 16 word, 's) loop_state" where
  "Polling_iter_kqueue EVFilterSock callback run p w st =
     (let st1 = st\<lparr>el := (el st)\<lparr>events := kernel_fill (events (el st)) (wait_written w)\<rparr>,
                    trace := trace st @ [Sys (Kevent (kfd p) [] (length (events (el st))))]\<rparr>
      in case wait_err w of
           None \<Rightarrow> after_wait_kqueue EVFilterSock callback run (wait_n w) st1
         | Some err0 \<Rightarrow>
             if err0 \<noteq> EINTR then (None, st1\<lparr>trace := trace st1 @ [Log err0]\<rparr>)
             else after_wait_kqueue EVFilterSock callback run (wait_n w) st1)"

fun Polling_loop_kqueue ::
  "16 word \<Rightarrow> (int \<Rightarrow> 16 word \<Rightarrow> 's \<Rightarrow> 's reaction) \<Rightarrow> (Job \<Rightarrow> 's \<Rightarrow> 's reaction) \<Rightarrow> Poller_kqueue
     \<Rightarrow> Kevent_t wait_result list \<Rightarrow> (Kevent_t, 16 word, 's) loop_state
     \<Rightarrow> outcome \<times> (Kevent_t, 16 word, 's) loop_state" where
  "Polling_loop_kqueue EVFilterSock callback run p [] st =
     (Blocked, st\<lparr>trace := trace st @ [Sys (Kevent (kfd p) [] (length (events (el st))))]\<rparr>)"
| "Polling_loop_kqueue EVFilterSock callback run p (w # ws) st =
     (case Polling_iter_kqueue EVFilterSock callback run p w st of
        (Some out, st') \<Rightarrow> (out, st')
      | (None, st') \<Rightarrow> Polling_loop_kqueue EVFilterSock callback run p ws st')"

definition Polling_kqueue ::
  "int \<Rightarrow> 16 word \<Rightarrow> (int \<Rightarrow> 16 word \<Rightarrow> 's \<Rightarrow> 's reaction) \<Rightarrow> (Job \<Rightarrow> 's \<Rightarrow> 's reaction)
     \<Rightarrow> Poller_kqueue \<Rightarrow> Kevent_t wait_result list \<Rightarrow> 's
     \<Rightarrow> outcome \<times> (Kevent_t, 16 word, 's) loop_state" where
  "Polling_kqueue InitEvents EVFilterSock callback run p ws s0 =
     Polling_loop_kqueue EVFilterSock callback run p ws
       \<lparr>queue = kq_asyncJobQueue p, el = newEventList zero_Kevent_t InitEvents,
        wakenUp = False, app = s0, trace = []\<rparr>"

section \<open>Observations on the effects of a run\<close>

text \<open>
  The error a callback invocation returned, the error a job run returned, and the
  descriptor a callback invocation was given; \<open>None\<close> for every other effect.
\<close>

fun callback_error :: "'m effect \<Rightarrow> error option" where
  "callback_error (Callback d m r) = r"
| "callback_error _ = None"

fun job_error :: "'m effect \<Rightarrow> error option" where
  "job_error (JobRun j r) = r"
| "job_error _ = None"

fun callback_fd :: "'m effect \<Rightarrow> int option" where
  "callback_fd (Callback d m r) = Some d"
| "callback_fd _ = None"

text \<open>The descriptor and the mask of every callback invocation, in order.\<close>

fun callbacks_of :: "'m effect list \<Rightarrow> (int \<times> 'm) list" where
  "callbacks_of [] = []"
| "callbacks_of (Callback d m r # xs) = (d, m) # callbacks_of xs"
| "callbacks_of (x # xs) = callbacks_of xs"

text \<open>
  \<open>quiet\<close>: no callback invocation in the effects failed. \<open>stops_at E\<close>: the last effect
  is a callback invocation that failed with \<open>E\<close>, and none before it failed.
\<close>

definition quiet :: "'m effect list \<Rightarrow> bool" where
  "quiet new = list_all (\<lambda>x. callback_error x = None) new"

definition stops_at :: "error \<Rightarrow> 'm effect list \<Rightarrow> bool" where
  "stops_at E new = (new \<noteq> [] \<and> callback_error (last new) = Some E \<and> quiet (butlast new))"

text \<open>
  The effects of the dispatch loop over one batch, of one \<open>ForEach\<close>, and of a whole run,
  against the way each ends. \<open>wake\<close> is the wake identifier of the backend: the wake
  descriptor on epoll, 0 on kqueue.
\<close>

definition dispatch_shape :: "int \<Rightarrow> flow \<Rightarrow> 'm effect list \<Rightarrow> bool" where
  "dispatch_shape wake fl new =
     ((case fl of Return E \<Rightarrow> stops_at E new | _ \<Rightarrow> quiet new)
      \<and> list_all (\<lambda>x. callback_fd x \<noteq> Some wake \<and> job_error x = None \<and> x \<noteq> ForEachCall) new)"

definition batch_shape :: "error option \<Rightarrow> 'm effect list \<Rightarrow> bool" where
  "batch_shape r new =
     (list_all (\<lambda>x. callback_fd x = None \<and> callback_error x = None) new
      \<and> (case r of Some E \<Rightarrow> new \<noteq> [] \<and> job_error (last new) = Some E | None \<Rightarrow> True))"

definition run_shape :: "int \<Rightarrow> outcome \<Rightarrow> 'm effect list \<Rightarrow> bool" where
  "run_shape wake out new =
     (list_all (\<lambda>x. callback_fd x \<noteq> Some wake) new
      \<and> (case out of
           Returned E \<Rightarrow>
             new \<noteq> [] \<and> (callback_error (last new) = Some E \<or> job_error (last new) = Some E)
             \<and> (quiet new \<or> stops_at E new)
         | _ \<Rightarrow> quiet new))"

text \<open>An iteration that goes on to the next wait call has not ended the run.\<close>

definition ending :: "outcome option \<Rightarrow> outcome" where
  "ending oc = (case oc of Some out \<Rightarrow> out | None \<Rightarrow> Blocked)"

text \<open>
  The filter the kqueue dispatch loop hands to the callback for the record \<open>e\<close> (the
  local \<open>evFilter\<close> of \<open>Polling\<close>), and the invocations a batch of records calls for: one
  for each record whose identifier is not 0, in order.
\<close>

definition kq_filter :: "16 word \<Rightarrow> Kevent_t \<Rightarrow> 16 word" where
  "kq_filter EVFilterSock e =
     (if Flags e AND EV_EOF \<noteq> 0 \<or> Flags e AND EV_ERROR \<noteq> 0 then EVFilterSock else Filter e)"

definition dispatched_kqueue :: "16 word \<Rightarrow> Kevent_t list \<Rightarrow> (int \<times> 16 word) list" where
  "dispatched_kqueue EVFilterSock batch =
     map (\<lambda>e. (sint (Ident e), kq_filter EVFilterSock e)) (filter (\<lambda>e. Ident e \<noteq> 0) batch)"

text \<open>
  The job runs of a batch of which the first \<open>k\<close> jobs succeeded and, when \<open>r\<close> is an
  error, job \<open>k\<close> failed with it; and the jobs pushed while a batch ran from the
  framework state \<open>s\<close>, up to and including its first failing job.
\<close>

definition batch_runs :: "Job list \<Rightarrow> nat \<Rightarrow> error option \<Rightarrow> 'm effect list" where
  "batch_runs batch k r =
     map (\<lambda>j. JobRun j None) (take k batch) @
       (case r of None \<Rightarrow> [] | Some E \<Rightarrow> [JobRun (batch ! k) (Some E)])"

fun pushed_during :: "(Job \<Rightarrow> 's \<Rightarrow> 's reaction) \<Rightarrow> Job list \<Rightarrow> 's \<Rightarrow> Job list" where
  "pushed_during run [] s = []"
| "pushed_during run (j # js) s =
     pushed (run j s) @
       (case result (run j s) of
          Some err \<Rightarrow> []
        | None \<Rightarrow> pushed_during run js (app_after (run j s)))"

subsection \<open>A concrete framework, for the examples\<close>

text \<open>
  The framework state counts: a callback adds 1, a job adds 100. The callback fails on
  descriptor 7 and pushes job 20 on descriptor 5; job 10 pushes job 30 and job 11 fails.
  Both pollers have multiplexing handle 3 and the jobs 10, 11 and 12 queued; the wake
  descriptor of the epoll poller is 4. The example states are those at the start of
  \<open>Polling\<close> with \<open>InitEvents = 2\<close>. The example wait returns fill the buffer: a wake
  notification, then a record for descriptor 7.
\<close>

definition ex_callback :: "int \<Rightarrow> 'm \<Rightarrow> nat \<Rightarrow> nat reaction" where
  "ex_callback d m s =
     \<lparr>app_after = s + 1, pushed = (if d = 5 then [20] else []),
      result = (if d = 7 then Some (Failure 1) else None)\<rparr>"

definition ex_run :: "Job \<Rightarrow> nat \<Rightarrow> nat reaction" where
  "ex_run j s =
     \<lparr>app_after = s + 100, pushed = (if j = 10 then [30] else []),
      result = (if j = 11 then Some (Failure 2) else None)\<rparr>"

definition ex_epoll :: Poller_epoll where
  "ex_epoll = \<lparr>fd = 3, wfd = 4, asyncJobQueue = \<lparr>jobs = [10, 11, 12]\<rparr>\<rparr>"

definition ex_kqueue :: Poller_kqueue where
  "ex_kqueue = \<lparr>kfd = 3, kq_asyncJobQueue = \<lparr>jobs = [10, 11, 12]\<rparr>\<rparr>"

definition ex_state_epoll :: "(EpollEvent, 32 word, nat) loop_state" where
  "ex_state_epoll =
     \<lparr>queue = asyncJobQueue ex_epoll, el = newEventList zero_EpollEvent 2,
      wakenUp = False, app = 0, trace = []\<rparr>"

definition ex_state_kqueue :: "(Kevent_t, 16 word, nat) loop_state" where
  "ex_state_kqueue =
     \<lparr>queue = kq_asyncJobQueue ex_kqueue, el = newEventList zero_Kevent_t 2,
      wakenUp = False, app = 0, trace = []\<rparr>"

definition ex_wait_epoll :: "EpollEvent wait_result" where
  "ex_wait_epoll =
     \<lparr>wait_n = 2, wait_err = None,
      wait_written = [\<lparr>Events = EPOLLIN, Fd = 4\<rparr>, \<lparr>Events = EPOLLIN, Fd = 7\<rparr>]\<rparr>"

definition ex_wait_kqueue :: "Kevent_t wait_result" where
  "ex_wait_kqueue =
     \<lparr>wait_n = 2, wait_err = None,
      wait_written = [\<lparr>Ident = 0, Filter = EVFILT_USER, Flags = 0, Fflags = 0\<rparr>,
                      \<lparr>Ident = 7, Filter = EVFILT_READ, Flags = EV_EOF, Fflags = 0\<rparr>]\<rparr>"

text \<open>
  Further wait returns: a full batch for the descriptors 5 and 6 (on kqueue the second
  record carries \<open>EV_ERROR\<close>); a wake notification followed by a record for descriptor 5;
  an interrupted wait call; and a wait call that failed with \<open>EBADF\<close>.
\<close>

definition ex_full_epoll :: "EpollEvent wait_result" where
  "ex_full_epoll =
     \<lparr>wait_n = 2, wait_err = None,
      wait_written = [\<lparr>Events = EPOLLIN, Fd = 5\<rparr>, \<lparr>Events = EPOLLOUT, Fd = 6\<rparr>]\<rparr>"

definition ex_full_kqueue :: "Kevent_t wait_result" where
  "ex_full_kqueue =
     \<lparr>wait_n = 2, wait_err = None,
      wait_written = [\<lparr>Ident = 5, Filter = EVFILT_READ, Flags = 0, Fflags = 0\<rparr>,
                      \<lparr>Ident = 6, Filter = EVFILT_WRITE, Flags = EV_ERROR, Fflags = 0\<rparr>]\<rparr>"

definition ex_woken_epoll :: "EpollEvent wait_result" where
  "ex_woken_epoll =
     \<lparr>wait_n = 2, wait_err = None,
      wait_written = [\<lparr>Events = EPOLLIN, Fd = 4\<rparr>, \<lparr>Events = EPOLLIN, Fd = 5\<rparr>]\<rparr>"

definition ex_woken_kqueue :: "Kevent_t wait_result" where
  "ex_woken_kqueue =
     \<lparr>wait_n = 2, wait_err = None,
      wait_written = [\<lparr>Ident = 0, Filter = EVFILT_READ, Flags = 0, Fflags = 0\<rparr>,
                      \<lparr>Ident = 5, Filter = EVFILT_READ, Flags = 0, Fflags = 0\<rparr>]\<rparr>"

definition ex_interrupted :: "'e wait_result" where
  "ex_interrupted = \<lparr>wait_n = - 1, wait_err = Some EINTR, wait_written = []\<rparr>"

definition ex_failed :: "'e wait_result" where
  "ex_failed = \<lparr>wait_n = - 1, wait_err = Some (Errno 9), wait_written = []\<rparr>"

section \<open>Lifecycle, trigger and registration\<close>

text \<open>
  C1. \<open>Trigger\<close> pushes the job onto the queue of the poller. Exactly when \<open>Push\<close>
  returned 1 it issues one wake call and returns the result of that call: on epoll a
  write to the wake handle of the eight bytes of the \<open>uint64\<close> value 1 in the byte order
  of the machine; on kqueue a \<open>Kevent\<close> call on the multiplexing handle with no event
  buffer and a single change, for identifier 0 and the filter \<open>EVFILT_USER\<close>, with no
  flags and the filter flag \<open>NOTE_TRIGGER\<close>. For every other return of \<open>Push\<close> it issues
  no system call and returns \<open>nil\<close>. \<open>Push\<close> returns 1 exactly when the queue was empty
  before the push.
\<close>

theorem Trigger_wakes_iff_push_returns_one:
  "jobs (asyncJobQueue (fst (snd (Trigger_epoll bo p job r)))) = jobs (asyncJobQueue p) @ [job]
   \<and> fd (fst (snd (Trigger_epoll bo p job r))) = fd p
   \<and> wfd (fst (snd (Trigger_epoll bo p job r))) = wfd p
   \<and> snd (snd (Trigger_epoll bo p job r)) =
       (if fst (Push job (asyncJobQueue p)) = 1
        then [SysWrite (wfd p)
                (case bo of LittleEndian \<Rightarrow> [1, 0, 0, 0, 0, 0, 0, 0]
                          | BigEndian \<Rightarrow> [0, 0, 0, 0, 0, 0, 0, 1])]
        else [])
   \<and> fst (Trigger_epoll bo p job r) = (if fst (Push job (asyncJobQueue p)) = 1 then r else None)
   \<and> length (b bo) = 8
   \<and> jobs (kq_asyncJobQueue (fst (snd (Trigger_kqueue k job r)))) = jobs (kq_asyncJobQueue k) @ [job]
   \<and> kfd (fst (snd (Trigger_kqueue k job r))) = kfd k
   \<and> snd (snd (Trigger_kqueue k job r)) =
       (if fst (Push job (kq_asyncJobQueue k)) = 1
        then [Kevent (kfd k) [\<lparr>Ident = 0, Filter = EVFILT_USER, Flags = 0, Fflags = NOTE_TRIGGER\<rparr>] 0]
        else [])
   \<and> fst (Trigger_kqueue k job r) = (if fst (Push job (kq_asyncJobQueue k)) = 1 then r else None)
   \<and> wakeChanges = [\<lparr>Ident = 0, Filter = - 10, Flags = 0, Fflags = 0x1000000\<rparr>]
   \<and> EVFILT_USER \<noteq> EVFILT_READ \<and> EVFILT_USER \<noteq> EVFILT_WRITE \<and> NOTE_TRIGGER \<noteq> 0
   \<and> (fst (Push job q) = 1 \<longleftrightarrow> jobs q = [])
   \<and> jobs (snd (Push job q)) = jobs q @ [job]"
  by (cases bo)
     (auto simp: Trigger_epoll_def Trigger_kqueue_def Push_def Let_def wakeChanges_def
        EVFILT_USER_def EVFILT_READ_def EVFILT_WRITE_def NOTE_TRIGGER_def)

text \<open>
  C1, at concrete pollers. On an empty queue a trigger issues the wake call and returns
  its result: on epoll the write of \<open>[1, 0, 0, 0, 0, 0, 0, 0]\<close> to the wake handle 4, on
  kqueue the \<open>Kevent\<close> call on handle 3 with the user-filter trigger. On a queue that
  holds a job a trigger issues no system call and returns \<open>nil\<close>, on both backends.
\<close>

theorem Trigger_wakes_iff_push_returns_one_witness:
  "Trigger_epoll LittleEndian \<lparr>fd = 3, wfd = 4, asyncJobQueue = \<lparr>jobs = []\<rparr>\<rparr> 7 (Some (Errno 11))
     = (Some (Errno 11), \<lparr>fd = 3, wfd = 4, asyncJobQueue = \<lparr>jobs = [7]\<rparr>\<rparr>,
        [SysWrite 4 [1, 0, 0, 0, 0, 0, 0, 0]])
   \<and> Trigger_epoll LittleEndian \<lparr>fd = 3, wfd = 4, asyncJobQueue = \<lparr>jobs = [5]\<rparr>\<rparr> 7 (Some (Errno 11))
     = (None, \<lparr>fd = 3, wfd = 4, asyncJobQueue = \<lparr>jobs = [5, 7]\<rparr>\<rparr>, [])
   \<and> Trigger_kqueue \<lparr>kfd = 3, kq_asyncJobQueue = \<lparr>jobs = []\<rparr>\<rparr> 7 (Some (Errno 11))
     = (Some (Errno 11), \<lparr>kfd = 3, kq_asyncJobQueue = \<lparr>jobs = [7]\<rparr>\<rparr>,
        [Kevent 3 [\<lparr>Ident = 0, Filter = - 10, Flags = 0, Fflags = 0x1000000\<rparr>] 0])
   \<and> Trigger_kqueue \<lparr>kfd = 3, kq_asyncJobQueue = \<lparr>jobs = [5]\<rparr>\<rparr> 7 (Some (Errno 11))
     = (None, \<lparr>kfd = 3, kq_asyncJobQueue = \<lparr>jobs = [5, 7]\<rparr>\<rparr>, [])"
proof -
  let ?pe = "\<lparr>fd = 3, wfd = 4, asyncJobQueue = \<lparr>jobs = []\<rparr>\<rparr>"
  let ?pf = "\<lparr>fd = 3, wfd = 4, asyncJobQueue = \<lparr>jobs = [5]\<rparr>\<rparr>"
  let ?ke = "\<lparr>kfd = 3, kq_asyncJobQueue = \<lparr>jobs = []\<rparr>\<rparr>"
  let ?kf = "\<lparr>kfd = 3, kq_asyncJobQueue = \<lparr>jobs = [5]\<rparr>\<rparr>"
  note woken = Trigger_wakes_iff_push_returns_one
    [where bo = LittleEndian and p = ?pe and job = 7 and r = "Some (Errno 11)" and k = ?ke
       and q = "\<lparr>jobs = []\<rparr>"]
  note asleep = Trigger_wakes_iff_push_returns_one
    [where bo = LittleEndian and p = ?pf and job = 7 and r = "Some (Errno 11)" and k = ?kf
       and q = "\<lparr>jobs = [5]\<rparr>"]
  have one: "fst (Push 7 \<lparr>jobs = []\<rparr>) = 1" and two: "fst (Push 7 \<lparr>jobs = [5]\<rparr>) \<noteq> 1"
    by (simp_all add: Push_def)
  have "Trigger_epoll LittleEndian ?pe 7 (Some (Errno 11))
     = (Some (Errno 11), \<lparr>fd = 3, wfd = 4, asyncJobQueue = \<lparr>jobs = [7]\<rparr>\<rparr>,
        [SysWrite 4 [1, 0, 0, 0, 0, 0, 0, 0]])"
    using woken one by (intro prod_eqI Poller_epoll.equality AsyncJobQueue.equality) simp_all
  moreover have "Trigger_epoll LittleEndian ?pf 7 (Some (Errno 11))
     = (None, \<lparr>fd = 3, wfd = 4, asyncJobQueue = \<lparr>jobs = [5, 7]\<rparr>\<rparr>, [])"
    using asleep two by (intro prod_eqI Poller_epoll.equality AsyncJobQueue.equality) simp_all
  moreover have "Trigger_kqueue ?ke 7 (Some (Errno 11))
     = (Some (Errno 11), \<lparr>kfd = 3, kq_asyncJobQueue = \<lparr>jobs = [7]\<rparr>\<rparr>,
        [Kevent 3 [\<lparr>Ident = 0, Filter = - 10, Flags = 0, Fflags = 0x1000000\<rparr>] 0])"
    using woken one
    by (intro prod_eqI Poller_kqueue.equality AsyncJobQueue.equality)
       (simp_all add: EVFILT_USER_def NOTE_TRIGGER_def)
  moreover have "Trigger_kqueue ?kf 7 (Some (Errno 11))
     = (None, \<lparr>kfd = 3, kq_asyncJobQueue = \<lparr>jobs = [5, 7]\<rparr>\<rparr>, [])"
    using asleep two by (intro prod_eqI Poller_kqueue.equality AsyncJobQueue.equality) simp_all
  ultimately show ?thesis by blast
qed

text \<open>
  C3. \<open>OpenPoller\<close> does not close what it opened when the registration fails. On epoll,
  with \<open>EpollCreate1\<close> returning descriptor 3, \<open>eventfd2\<close> returning descriptor 4 and the
  \<open>EpollCtl\<close> of \<open>AddRead\<close> failing with \<open>ENOMEM\<close>, the error is returned after three
  system calls, none of them a \<open>close\<close>: both descriptors stay open. On kqueue, with
  \<open>Kqueue\<close> returning descriptor 3 and the registering \<open>Kevent\<close> failing, descriptor 3
  stays open. Only the failure of \<open>eventfd2\<close> closes the epoll descriptor.
\<close>

theorem OpenPoller_leaks_handles_when_registration_fails:
  "OpenPoller_epoll (Inr 3) (4, 0) (Some (Errno 12)) =
     (Inl (Errno 12),
      [EpollCreate1, Eventfd2, EpollCtl 3 EPOLL_CTL_ADD 4 (Some \<lparr>Events = readEvents, Fd = 4\<rparr>)])
   \<and> OpenPoller_kqueue (Inr 3) (Some (Errno 12)) =
     (Inl (Errno 12),
      [Kqueue, Kevent 3 [\<lparr>Ident = 0, Filter = EVFILT_USER, Flags = EV_ADD OR EV_CLEAR, Fflags = 0\<rparr>] 0])
   \<and> OpenPoller_epoll (Inr 3) (0, 24) None =
     (Inl (Errno 24), [EpollCreate1, Eventfd2, SysClose 3])"
  by (simp add: OpenPoller_epoll_def OpenPoller_kqueue_def AddRead_epoll_def NewAsyncJobQueue_def)

text \<open>
  C8. On epoll \<open>Delete\<close> issues one \<open>EpollCtl\<close> call with \<open>EPOLL_CTL_DEL\<close> on the
  multiplexing handle and returns its result. On kqueue \<open>Delete\<close> issues no system call,
  returns \<open>nil\<close> and leaves the poller as it was.
\<close>

theorem Delete_deregisters_on_epoll_only:
  "Delete_epoll p d r = (r, [EpollCtl (fd p) EPOLL_CTL_DEL d None])
   \<and> Delete_kqueue k d = (None, k, [])"
  by (simp add: Delete_epoll_def Delete_kqueue_def)

text \<open>
  C9, as stated, fails on epoll: when closing the wake handle 4 fails, \<open>Close\<close> returns
  that error at once and the multiplexing handle 3 is not closed.
\<close>

theorem Close_epoll_skips_fd_when_wfd_close_fails:
  "Close_epoll \<lparr>fd = 3, wfd = 4, asyncJobQueue = \<lparr>jobs = []\<rparr>\<rparr> (Some (Errno 5)) None
     = (Some (Errno 5), [SysClose 4])
   \<and> SysClose 3 \<notin> set (snd (Close_epoll \<lparr>fd = 3, wfd = 4, asyncJobQueue = \<lparr>jobs = []\<rparr>\<rparr>
                                 (Some (Errno 5)) None))"
  by (simp add: Close_epoll_def)

text \<open>
  C9, amended. On epoll \<open>Close\<close> closes the wake handle first; if that fails it returns
  the error without closing the multiplexing handle, otherwise it closes the multiplexing
  handle and returns the result of that call. On kqueue \<open>Close\<close> closes the multiplexing
  handle only. A \<open>Close\<close> that returns \<open>nil\<close> has closed both handles of the poller, and
  \<open>Close\<close> never closes any other descriptor.
\<close>

theorem Close_closes_owned_handles:
  "Close_epoll p r_wfd r_fd =
     (case r_wfd of
        Some err \<Rightarrow> (Some err, [SysClose (wfd p)])
      | None \<Rightarrow> (r_fd, [SysClose (wfd p), SysClose (fd p)]))
   \<and> (fst (Close_epoll p r_wfd r_fd) = None \<longrightarrow>
        snd (Close_epoll p r_wfd r_fd) = [SysClose (wfd p), SysClose (fd p)])
   \<and> set (snd (Close_epoll p r_wfd r_fd)) \<subseteq> {SysClose (wfd p), SysClose (fd p)}
   \<and> Close_kqueue k r = (r, [SysClose (kfd k)])"
  by (auto simp: Close_epoll_def Close_kqueue_def split: option.splits)

text \<open>C9, amended, at a concrete poller whose two \<open>close\<close> calls succeed.\<close>

theorem Close_closes_owned_handles_witness:
  "fst (Close_epoll \<lparr>fd = 3, wfd = 4, asyncJobQueue = \<lparr>jobs = []\<rparr>\<rparr> None None) = None
   \<and> snd (Close_epoll \<lparr>fd = 3, wfd = 4, asyncJobQueue = \<lparr>jobs = []\<rparr>\<rparr> None None)
       = [SysClose 4, SysClose 3]"
  using Close_closes_owned_handles
    [of "\<lparr>fd = 3, wfd = 4, asyncJobQueue = \<lparr>jobs = []\<rparr>\<rparr>" None None]
  by simp

section \<open>The reactor loop: auxiliary facts\<close>

declare events_loop_epoll.simps [simp del]

declare events_loop_kqueue.simps [simp del]

lemma events_loop_epoll_end:
  "\<not> i < n \<Longrightarrow> events_loop_epoll callback p n i st = (Next, st)"
  by (subst events_loop_epoll.simps) simp

lemma events_loop_epoll_panic:
  "i < n \<Longrightarrow> i < 0 \<or> int (length (events (el st))) \<le> i \<Longrightarrow>
     events_loop_epoll callback p n i st = (IndexPanic, st)"
  by (subst events_loop_epoll.simps) simp

lemma events_loop_epoll_wake:
  "i < n \<Longrightarrow> 0 \<le> i \<Longrightarrow> i < int (length (events (el st))) \<Longrightarrow>
   sint (Fd (events (el st) ! nat i)) = wfd p \<Longrightarrow>
     events_loop_epoll callback p n i st =
       events_loop_epoll callback p n (i + 1)
         (st\<lparr>wakenUp := True, trace := trace st @ [Sys (SysRead (wfd p) 8)]\<rparr>)"
  by (subst events_loop_epoll.simps) (simp add: Let_def)

lemma events_loop_epoll_fail:
  "i < n \<Longrightarrow> 0 \<le> i \<Longrightarrow> i < int (length (events (el st))) \<Longrightarrow>
   e = events (el st) ! nat i \<Longrightarrow> sint (Fd e) \<noteq> wfd p \<Longrightarrow>
   r = callback (sint (Fd e)) (Events e) (app st) \<Longrightarrow> result r = Some E \<Longrightarrow>
     events_loop_epoll callback p n i st =
       (Return E, (absorb r st)\<lparr>trace := trace st @ [Callback (sint (Fd e)) (Events e) (Some E)]\<rparr>)"
  by (subst events_loop_epoll.simps) (simp add: Let_def)

lemma events_loop_epoll_ok:
  "i < n \<Longrightarrow> 0 \<le> i \<Longrightarrow> i < int (length (events (el st))) \<Longrightarrow>
   e = events (el st) ! nat i \<Longrightarrow> sint (Fd e) \<noteq> wfd p \<Longrightarrow>
   r = callback (sint (Fd e)) (Events e) (app st) \<Longrightarrow> result r = None \<Longrightarrow>
     events_loop_epoll callback p n i st =
       events_loop_epoll callback p n (i + 1)
         ((absorb r st)\<lparr>trace := trace st @ [Callback (sint (Fd e)) (Events e) None]\<rparr>)"
  by (subst events_loop_epoll.simps) (simp add: Let_def)

lemma events_loop_epoll_cases [case_names finished outside wake fail ok]:
  assumes "\<And>i st. \<not> i < n \<Longrightarrow> P i st"
    and "\<And>i st. i < n \<Longrightarrow> i < 0 \<or> int (length (events (el st))) \<le> i \<Longrightarrow> P i st"
    and "\<And>i st. i < n \<Longrightarrow> 0 \<le> i \<Longrightarrow> i < int (length (events (el st))) \<Longrightarrow>
           sint (Fd (events (el st) ! nat i)) = wfd (p :: Poller_epoll) \<Longrightarrow>
           P (i + 1) (st\<lparr>wakenUp := True, trace := trace st @ [Sys (SysRead (wfd p) 8)]\<rparr>) \<Longrightarrow>
           P i st"
    and "\<And>i st e r E. i < n \<Longrightarrow> 0 \<le> i \<Longrightarrow> i < int (length (events (el st))) \<Longrightarrow>
           e = events (el st) ! nat i \<Longrightarrow> sint (Fd e) \<noteq> wfd p \<Longrightarrow>
           r = callback (sint (Fd e)) (Events e) (app st) \<Longrightarrow> result r = Some E \<Longrightarrow> P i st"
    and "\<And>i st e r. i < n \<Longrightarrow> 0 \<le> i \<Longrightarrow> i < int (length (events (el st))) \<Longrightarrow>
           e = events (el st) ! nat i \<Longrightarrow> sint (Fd e) \<noteq> wfd p \<Longrightarrow>
           r = callback (sint (Fd e)) (Events e) (app st) \<Longrightarrow> result r = None \<Longrightarrow>
           P (i + 1) ((absorb r st)\<lparr>trace := trace st @ [Callback (sint (Fd e)) (Events e) None]\<rparr>) \<Longrightarrow>
           P i st"
  shows "P i (st :: (EpollEvent, 32 word, 's) loop_state)"
  using assms
proof (induction callback p n i st rule: events_loop_epoll.induct)
  case (1 callback p n i st)
  let ?e = "events (el st) ! nat i"
  let ?r = "callback (sint (Fd ?e)) (Events ?e) (app st)"
  show ?case
  proof (cases "i < n")
    case False
    then show ?thesis by (rule "1.prems"(1))
  next
    case lt: True
    show ?thesis
    proof (cases "i < 0 \<or> int (length (events (el st))) \<le> i")
      case True
      with lt show ?thesis by (rule "1.prems"(2))
    next
      case False
      then have rng: "0 \<le> i" "i < int (length (events (el st)))" by auto
      show ?thesis
      proof (cases "sint (Fd ?e) = wfd p")
        case True
        have "P (i + 1) (st\<lparr>wakenUp := True, trace := trace st @ [Sys (SysRead (wfd p) 8)]\<rparr>)"
          by (rule "1.IH"(2) [OF lt False refl refl _ "1.prems"]) (simp add: True)
        with lt rng True show ?thesis by (rule "1.prems"(3))
      next
        case ne: False
        show ?thesis
        proof (cases "result ?r")
          case (Some E)
          from lt rng refl ne refl Some show ?thesis by (rule "1.prems"(4))
        next
          case None
          have "P (i + 1) ((absorb ?r st)\<lparr>trace := trace st @ [Callback (sint (Fd ?e)) (Events ?e) (result ?r)]\<rparr>)"
            by (rule "1.IH"(1) [OF lt False refl refl ne refl refl None "1.prems"])
          then have "P (i + 1) ((absorb ?r st)\<lparr>trace := trace st @ [Callback (sint (Fd ?e)) (Events ?e) None]\<rparr>)"
            by (simp only: None)
          with lt rng refl ne refl None show ?thesis by (rule "1.prems"(5))
        qed
      qed
    qed
  qed
qed

lemma events_loop_kqueue_end:
  "\<not> i < n \<Longrightarrow> events_loop_kqueue F callback n i st = (Next, st)"
  by (subst events_loop_kqueue.simps) simp

lemma events_loop_kqueue_panic:
  "i < n \<Longrightarrow> i < 0 \<or> int (length (events (el st))) \<le> i \<Longrightarrow>
     events_loop_kqueue F callback n i st = (IndexPanic, st)"
  by (subst events_loop_kqueue.simps) simp

lemma events_loop_kqueue_wake:
  "i < n \<Longrightarrow> 0 \<le> i \<Longrightarrow> i < int (length (events (el st))) \<Longrightarrow>
   sint (Ident (events (el st) ! nat i)) = 0 \<Longrightarrow>
     events_loop_kqueue F callback n i st =
       events_loop_kqueue F callback n (i + 1)
         (st\<lparr>wakenUp := True\<rparr>)"
  by (subst events_loop_kqueue.simps) (simp add: Let_def kq_filter_def)

lemma events_loop_kqueue_fail:
  "i < n \<Longrightarrow> 0 \<le> i \<Longrightarrow> i < int (length (events (el st))) \<Longrightarrow>
   e = events (el st) ! nat i \<Longrightarrow> sint (Ident e) \<noteq> 0 \<Longrightarrow>
   r = callback (sint (Ident e)) (kq_filter F e) (app st) \<Longrightarrow> result r = Some E \<Longrightarrow>
     events_loop_kqueue F callback n i st =
       (Return E, (absorb r st)\<lparr>trace := trace st @ [Callback (sint (Ident e)) (kq_filter F e) (Some E)]\<rparr>)"
  by (subst events_loop_kqueue.simps) (simp add: Let_def kq_filter_def)

lemma events_loop_kqueue_ok:
  "i < n \<Longrightarrow> 0 \<le> i \<Longrightarrow> i < int (length (events (el st))) \<Longrightarrow>
   e = events (el st) ! nat i \<Longrightarrow> sint (Ident e) \<noteq> 0 \<Longrightarrow>
   r = callback (sint (Ident e)) (kq_filter F e) (app st) \<Longrightarrow> result r = None \<Longrightarrow>
     events_loop_kqueue F callback n i st =
       events_loop_kqueue F callback n (i + 1)
         ((absorb r st)\<lparr>trace := trace st @ [Callback (sint (Ident e)) (kq_filter F e) None]\<rparr>)"
  by (subst events_loop_kqueue.simps) (simp add: Let_def kq_filter_def)

lemma events_loop_kqueue_cases [case_names finished outside wake fail ok]:
  assumes "\<And>i st. \<not> i < n \<Longrightarrow> P i st"
    and "\<And>i st. i < n \<Longrightarrow> i < 0 \<or> int (length (events (el st))) \<le> i \<Longrightarrow> P i st"
    and "\<And>i st. i < n \<Longrightarrow> 0 \<le> i \<Longrightarrow> i < int (length (events (el st))) \<Longrightarrow>
           sint (Ident (events (el st) ! nat i)) = 0 \<Longrightarrow>
           P (i + 1) (st\<lparr>wakenUp := True\<rparr>) \<Longrightarrow>
           P i st"
    and "\<And>i st e r E. i < n \<Longrightarrow> 0 \<le> i \<Longrightarrow> i < int (length (events (el st))) \<Longrightarrow>
           e = events (el st) ! nat i \<Longrightarrow> sint (Ident e) \<noteq> 0 \<Longrightarrow>
           r = callback (sint (Ident e)) (kq_filter F e) (app st) \<Longrightarrow> result r = Some E \<Longrightarrow> P i st"
    and "\<And>i st e r. i < n \<Longrightarrow> 0 \<le> i \<Longrightarrow> i < int (length (events (el st))) \<Longrightarrow>
           e = events (el st) ! nat i \<Longrightarrow> sint (Ident e) \<noteq> 0 \<Longrightarrow>
           r = callback (sint (Ident e)) (kq_filter F e) (app st) \<Longrightarrow> result r = None \<Longrightarrow>
           P (i + 1) ((absorb r st)\<lparr>trace := trace st @ [Callback (sint (Ident e)) (kq_filter F e) None]\<rparr>) \<Longrightarrow>
           P i st"
  shows "P i (st :: (Kevent_t, 16 word, 's) loop_state)"
  using assms
proof (induction F callback n i st rule: events_loop_kqueue.induct)
  case (1 F callback n i st)
  let ?e = "events (el st) ! nat i"
  let ?f = "if Flags ?e AND EV_EOF \<noteq> 0 \<or> Flags ?e AND EV_ERROR \<noteq> 0 then F else Filter ?e"
  let ?r = "callback (sint (Ident ?e)) ?f (app st)"
  have f: "kq_filter F ?e = ?f" by (simp add: kq_filter_def)
  show ?case
  proof (cases "i < n")
    case False
    then show ?thesis by (rule "1.prems"(1))
  next
    case lt: True
    show ?thesis
    proof (cases "i < 0 \<or> int (length (events (el st))) \<le> i")
      case True
      with lt show ?thesis by (rule "1.prems"(2))
    next
      case False
      then have rng: "0 \<le> i" "i < int (length (events (el st)))" by auto
      show ?thesis
      proof (cases "sint (Ident ?e) = 0")
        case True
        have "P (i + 1) (st\<lparr>wakenUp := True\<rparr>)"
          by (rule "1.IH"(2) [OF lt False refl refl _ "1.prems"]) (simp add: True)
        with lt rng True show ?thesis by (rule "1.prems"(3))
      next
        case ne: False
        have r: "?r = callback (sint (Ident ?e)) (kq_filter F ?e) (app st)"
          by (simp only: f)
        show ?thesis
        proof (cases "result ?r")
          case (Some E)
          from lt rng refl ne r Some show ?thesis by (rule "1.prems"(4))
        next
          case None
          have "P (i + 1) ((absorb ?r st)\<lparr>trace := trace st @ [Callback (sint (Ident ?e)) ?f (result ?r)]\<rparr>)"
            by (rule "1.IH"(1) [OF lt False refl refl ne refl refl refl None "1.prems"])
          then have "P (i + 1) ((absorb ?r st)\<lparr>trace := trace st @ [Callback (sint (Ident ?e)) (kq_filter F ?e) None]\<rparr>)"
            by (simp only: None f)
          with lt rng refl ne r None show ?thesis by (rule "1.prems"(5))
        qed
      qed
    qed
  qed
qed

lemma quiet_Nil [simp]: "quiet []"
  by (simp add: quiet_def)

lemma quiet_append [simp]: "quiet (xs @ ys) \<longleftrightarrow> quiet xs \<and> quiet ys"
  by (simp add: quiet_def)

lemma quiet_Cons [simp]: "quiet (x # xs) \<longleftrightarrow> callback_error x = None \<and> quiet xs"
  by (simp add: quiet_def)

lemma stops_at_append: "quiet xs \<Longrightarrow> stops_at E ys \<Longrightarrow> stops_at E (xs @ ys)"
  by (auto simp: stops_at_def butlast_append)

lemma stops_at_single: "callback_error x = Some E \<Longrightarrow> stops_at E [x]"
  by (simp add: stops_at_def)

lemma quiet_no_failure:
  "quiet new \<Longrightarrow> new = pre @ x # post \<Longrightarrow> callback_error x = Some E \<Longrightarrow> False"
  by auto

lemma stops_at_last:
  assumes "stops_at E new" and "new = pre @ x # post" and "callback_error x = Some E'"
  shows "post = [] \<and> E' = E"
proof (cases "post = []")
  case True
  with assms show ?thesis by (auto simp: stops_at_def)
next
  case False
  then have "butlast new = pre @ x # butlast post"
    using assms(2) by (simp add: butlast_append)
  with assms show ?thesis by (auto simp: stops_at_def)
qed

lemma absorb_fields [simp]:
  "el (absorb r st) = el st" "wakenUp (absorb r st) = wakenUp st" "trace (absorb r st) = trace st"
  "app (absorb r st) = app_after r"
  by (simp_all add: absorb_def)

lemma events_loop_epoll_el:
  "events_loop_epoll callback p n i st = (fl, st') \<Longrightarrow> el st' = el st"
proof (induction i st arbitrary: fl st' rule: events_loop_epoll_cases [where callback = callback and p = p and n = n])
  case (finished i st)
  then show ?case by (simp add: events_loop_epoll_end)
next
  case (outside i st)
  then show ?case by (simp add: events_loop_epoll_panic)
next
  case (wake i st)
  from wake.prems wake.hyps have "el st' = el (st\<lparr>wakenUp := True, trace := trace st @ [Sys (SysRead (wfd p) 8)]\<rparr>)"
    by (intro wake.IH) (simp add: events_loop_epoll_wake)
  then show ?case by simp
next
  case (fail i st e r E)
  then show ?case by (auto simp: events_loop_epoll_fail [where e = e and r = r and E = E])
next
  case (ok i st e r)
  from ok.prems ok.hyps
  have "el st' = el ((absorb r st)\<lparr>trace := trace st @ [Callback (sint (Fd e)) (Events e) None]\<rparr>)"
    by (intro ok.IH) (simp add: events_loop_epoll_ok [where e = e and r = r])
  then show ?case by simp
qed

lemma events_loop_kqueue_el:
  "events_loop_kqueue F callback n i st = (fl, st') \<Longrightarrow> el st' = el st"
proof (induction i st arbitrary: fl st' rule: events_loop_kqueue_cases [where callback = callback and F = F and n = n])
  case (finished i st)
  then show ?case by (simp add: events_loop_kqueue_end)
next
  case (outside i st)
  then show ?case by (simp add: events_loop_kqueue_panic)
next
  case (wake i st)
  from wake.prems wake.hyps have "el st' = el (st\<lparr>wakenUp := True\<rparr>)"
    by (intro wake.IH) (simp add: events_loop_kqueue_wake)
  then show ?case by simp
next
  case (fail i st e r E)
  then show ?case by (auto simp: events_loop_kqueue_fail [where e = e and r = r and E = E])
next
  case (ok i st e r)
  from ok.prems ok.hyps
  have "el st' = el ((absorb r st)\<lparr>trace := trace st @ [Callback (sint (Ident e)) (kq_filter F e) None]\<rparr>)"
    by (intro ok.IH) (simp add: events_loop_kqueue_ok [where e = e and r = r])
  then show ?case by simp
qed

lemma stops_at_Cons: "callback_error x = None \<Longrightarrow> stops_at E (x # new) \<longleftrightarrow> stops_at E new"
  by (cases new) (auto simp: stops_at_def)

lemma dispatch_shape_Nil [simp]: "dispatch_shape w fl [] \<longleftrightarrow> (\<forall>E. fl \<noteq> Return E)"
  by (cases fl) (auto simp: dispatch_shape_def stops_at_def)

lemma dispatch_shape_Cons:
  "callback_error x = None \<Longrightarrow>
   dispatch_shape w fl (x # new) \<longleftrightarrow>
     callback_fd x \<noteq> Some w \<and> job_error x = None \<and> x \<noteq> ForEachCall \<and> dispatch_shape w fl new"
  by (cases fl) (auto simp: dispatch_shape_def stops_at_Cons)

lemma dispatch_shape_fail:
  "dispatch_shape w (Return E) [Callback d m (Some E')] \<longleftrightarrow> d \<noteq> w \<and> E' = E"
  by (auto simp: dispatch_shape_def stops_at_def)

lemma events_loop_epoll_trace:
  "events_loop_epoll callback p n i st = (fl, st') \<Longrightarrow>
     \<exists>new. trace st' = trace st @ new \<and> dispatch_shape (wfd p) fl new"
proof (induction i st arbitrary: fl st' rule: events_loop_epoll_cases [where callback = callback and p = p and n = n])
  case (finished i st)
  then show ?case by (simp add: events_loop_epoll_end)
next
  case (outside i st)
  then show ?case by (simp add: events_loop_epoll_panic)
next
  case (wake i st)
  from wake.prems wake.hyps obtain new where
    "trace st' = trace (st\<lparr>wakenUp := True, trace := trace st @ [Sys (SysRead (wfd p) 8)]\<rparr>) @ new" "dispatch_shape (wfd p) fl new"
    using wake.IH [of fl st'] by (auto simp: events_loop_epoll_wake)
  then show ?case
    by (intro exI [of _ "Sys (SysRead (wfd p) 8) # new"]) (simp add: dispatch_shape_Cons)
next
  case (fail i st e r E)
  from fail.prems fail.hyps have "fl = Return E"
    "trace st' = trace st @ [Callback (sint (Fd e)) (Events e) (Some E)]"
    by (auto simp: events_loop_epoll_fail [where e = e and r = r and E = E])
  then show ?case
    using fail.hyps by (intro exI [of _ "[Callback (sint (Fd e)) (Events e) (Some E)]"]) (simp add: dispatch_shape_fail)
next
  case (ok i st e r)
  from ok.prems ok.hyps obtain new where
    "trace st' = trace ((absorb r st)\<lparr>trace := trace st @ [Callback (sint (Fd e)) (Events e) None]\<rparr>) @ new"
    "dispatch_shape (wfd p) fl new"
    using ok.IH [of fl st'] by (auto simp: events_loop_epoll_ok [where e = e and r = r])
  then show ?case
    using ok.hyps by (intro exI [of _ "Callback (sint (Fd e)) (Events e) None # new"]) (simp add: dispatch_shape_Cons)
qed

lemma events_loop_kqueue_trace:
  "events_loop_kqueue F callback n i st = (fl, st') \<Longrightarrow>
     \<exists>new. trace st' = trace st @ new \<and> dispatch_shape 0 fl new"
proof (induction i st arbitrary: fl st' rule: events_loop_kqueue_cases [where callback = callback and F = F and n = n])
  case (finished i st)
  then show ?case by (simp add: events_loop_kqueue_end)
next
  case (outside i st)
  then show ?case by (simp add: events_loop_kqueue_panic)
next
  case (wake i st)
  from wake.prems wake.hyps obtain new where
    "trace st' = trace (st\<lparr>wakenUp := True\<rparr>) @ new" "dispatch_shape 0 fl new"
    using wake.IH [of fl st'] by (auto simp: events_loop_kqueue_wake)
  then show ?case
    by (intro exI [of _ new]) simp
next
  case (fail i st e r E)
  from fail.prems fail.hyps have "fl = Return E"
    "trace st' = trace st @ [Callback (sint (Ident e)) (kq_filter F e) (Some E)]"
    by (auto simp: events_loop_kqueue_fail [where e = e and r = r and E = E])
  then show ?case
    using fail.hyps by (intro exI [of _ "[Callback (sint (Ident e)) (kq_filter F e) (Some E)]"]) (simp add: dispatch_shape_fail)
next
  case (ok i st e r)
  from ok.prems ok.hyps obtain new where
    "trace st' = trace ((absorb r st)\<lparr>trace := trace st @ [Callback (sint (Ident e)) (kq_filter F e) None]\<rparr>) @ new"
    "dispatch_shape 0 fl new"
    using ok.IH [of fl st'] by (auto simp: events_loop_kqueue_ok [where e = e and r = r])
  then show ?case
    using ok.hyps by (intro exI [of _ "Callback (sint (Ident e)) (kq_filter F e) None # new"]) (simp add: dispatch_shape_Cons)
qed

lemma run_batch_trace:
  "run_batch run js st = (r, st') \<Longrightarrow>
     \<exists>new. trace st' = trace st @ new \<and> batch_shape r new"
proof (induction js arbitrary: st)
  case Nil
  then show ?case by (simp add: batch_shape_def)
next
  case (Cons j js)
  show ?case
  proof (cases "result (run j (app st))")
    case None
    with Cons.prems obtain new where
      "trace st' = (trace st @ [JobRun j None]) @ new" "batch_shape r new"
      using Cons.IH [of "(absorb (run j (app st)) st)\<lparr>trace := trace st @ [JobRun j None]\<rparr>"]
      by (auto simp: Let_def)
    then show ?thesis
      by (intro exI [of _ "JobRun j None # new"]) (auto simp: batch_shape_def split: option.splits)
  next
    case (Some E)
    with Cons.prems have "r = Some E" "trace st' = trace st @ [JobRun j (Some E)]"
      by (auto simp: Let_def)
    then show ?thesis
      by (intro exI [of _ "[JobRun j (Some E)]"]) (simp add: batch_shape_def)
  qed
qed

lemma run_batch_locals:
  "run_batch run js st = (r, st') \<Longrightarrow> el st' = el st \<and> wakenUp st' = wakenUp st"
  by (induction js arbitrary: st) (auto simp: Let_def split: option.splits)

lemma ForEach_trace:
  "ForEach run st = (r, st') \<Longrightarrow>
     \<exists>new. trace st' = trace st @ new \<and> batch_shape r new"
proof -
  assume "ForEach run st = (r, st')"
  then obtain new where
    "trace st' = (trace st @ [ForEachCall]) @ new" "batch_shape r new"
    unfolding ForEach_def by (fastforce dest: run_batch_trace)
  then show ?thesis
    by (intro exI [of _ "ForEachCall # new"]) (auto simp: batch_shape_def split: option.splits)
qed

lemma ForEach_locals:
  "ForEach run st = (r, st') \<Longrightarrow> el st' = el st \<and> wakenUp st' = wakenUp st"
  unfolding ForEach_def by (auto dest: run_batch_locals)

lemma run_shape_append:
  "run_shape w Blocked xs \<Longrightarrow> run_shape w out ys \<Longrightarrow> run_shape w out (xs @ ys)"
  by (cases out) (auto simp: run_shape_def stops_at_append)

lemma dispatch_run_shape:
  "dispatch_shape w fl new \<Longrightarrow>
     run_shape w (case fl of Return E \<Rightarrow> Returned E | IndexPanic \<Rightarrow> Panicked | Next \<Rightarrow> Blocked) new"
  by (cases fl) (auto simp: dispatch_shape_def run_shape_def stops_at_def list_all_iff)

lemma batch_run_shape:
  "batch_shape r new \<Longrightarrow> run_shape w (case r of Some E \<Rightarrow> Returned E | None \<Rightarrow> Blocked) new"
  by (cases r) (auto simp: batch_shape_def run_shape_def quiet_def list_all_iff)

lemma after_wait_epoll_Return:
  "events_loop_epoll callback p n 0 st = (Return E, st1) \<Longrightarrow>
     after_wait_epoll callback run p n st = (Some (Returned E), st1)"
  by (simp add: after_wait_epoll_def)

lemma after_wait_epoll_IndexPanic:
  "events_loop_epoll callback p n 0 st = (IndexPanic, st1) \<Longrightarrow>
     after_wait_epoll callback run p n st = (Some Panicked, st1)"
  by (simp add: after_wait_epoll_def)

lemma after_wait_epoll_Next_asleep:
  "events_loop_epoll callback p n 0 st = (Next, st1) \<Longrightarrow> \<not> wakenUp st1 \<Longrightarrow>
     after_wait_epoll callback run p n st =
       (None, if n = size_el (el st1) then st1\<lparr>el := increase zero_EpollEvent (el st1)\<rparr> else st1)"
  by (simp add: after_wait_epoll_def)

lemma after_wait_epoll_Next_woken:
  "events_loop_epoll callback p n 0 st = (Next, st1) \<Longrightarrow> wakenUp st1 \<Longrightarrow>
   ForEach run (st1\<lparr>wakenUp := False\<rparr>) = (r, st2) \<Longrightarrow>
     after_wait_epoll callback run p n st =
       (case r of
          Some E \<Rightarrow> (Some (Returned E), st2)
        | None \<Rightarrow> (None, if n = size_el (el st2) then st2\<lparr>el := increase zero_EpollEvent (el st2)\<rparr> else st2))"
  by (cases r) (simp_all add: after_wait_epoll_def)

lemma after_wait_epoll_trace:
  assumes "after_wait_epoll callback run p n st = (oc, st')"
  shows "\<exists>new. trace st' = trace st @ new \<and> run_shape (wfd p) (ending oc) new"
proof -
  obtain fl st1 where ev: "events_loop_epoll callback p n 0 st = (fl, st1)"
    by (cases "events_loop_epoll callback p n 0 st")
  then obtain new1 where n1: "trace st1 = trace st @ new1" "dispatch_shape (wfd p) fl new1"
    by (auto dest: events_loop_epoll_trace)
  note d = dispatch_run_shape [OF n1(2)]
  show ?thesis
  proof (cases fl)
    case (Return E)
    with assms after_wait_epoll_Return [of callback p n st E st1 run] ev
    have "oc = Some (Returned E)" "st' = st1" by simp_all
    with n1 d Return show ?thesis
      by (intro exI [of _ new1]) (simp add: ending_def)
  next
    case IndexPanic
    with assms after_wait_epoll_IndexPanic [of callback p n st st1 run] ev
    have "oc = Some Panicked" "st' = st1" by simp_all
    with n1 d IndexPanic show ?thesis
      by (intro exI [of _ new1]) (simp add: ending_def)
  next
    case Next
    show ?thesis
    proof (cases "wakenUp st1")
      case False
      with assms after_wait_epoll_Next_asleep [of callback p n st st1 run] ev Next
      have "oc = None \<and> trace st' = trace st1" by (auto split: if_splits)
      with n1 d Next show ?thesis
        by (intro exI [of _ new1]) (simp add: ending_def)
    next
      case True
      obtain r st2 where fe: "ForEach run (st1\<lparr>wakenUp := False\<rparr>) = (r, st2)"
        by (cases "ForEach run (st1\<lparr>wakenUp := False\<rparr>)")
      then obtain new2 where n2: "trace st2 = trace st1 @ new2" "batch_shape r new2"
        by (auto dest: ForEach_trace)
      have sh: "run_shape (wfd p) (case r of Some E \<Rightarrow> Returned E | None \<Rightarrow> Blocked) (new1 @ new2)"
        using Next d batch_run_shape [OF n2(2)]
        by (intro run_shape_append) simp_all
      have "ending oc = (case r of Some E \<Rightarrow> Returned E | None \<Rightarrow> Blocked) \<and> trace st' = trace st2"
        using assms after_wait_epoll_Next_woken [of callback p n st st1 run r st2] ev Next True fe
        by (cases r) (auto simp: ending_def split: if_splits)
      with sh n1 n2 show ?thesis
        by (intro exI [of _ "new1 @ new2"]) simp
    qed
  qed
qed

lemma after_wait_kqueue_Return:
  "events_loop_kqueue F callback n 0 st = (Return E, st1) \<Longrightarrow>
     after_wait_kqueue F callback run n st = (Some (Returned E), st1)"
  by (simp add: after_wait_kqueue_def)

lemma after_wait_kqueue_IndexPanic:
  "events_loop_kqueue F callback n 0 st = (IndexPanic, st1) \<Longrightarrow>
     after_wait_kqueue F callback run n st = (Some Panicked, st1)"
  by (simp add: after_wait_kqueue_def)

lemma after_wait_kqueue_Next_asleep:
  "events_loop_kqueue F callback n 0 st = (Next, st1) \<Longrightarrow> \<not> wakenUp st1 \<Longrightarrow>
     after_wait_kqueue F callback run n st =
       (None, if n = size_el (el st1) then st1\<lparr>el := increase zero_Kevent_t (el st1)\<rparr> else st1)"
  by (simp add: after_wait_kqueue_def)

lemma after_wait_kqueue_Next_woken:
  "events_loop_kqueue F callback n 0 st = (Next, st1) \<Longrightarrow> wakenUp st1 \<Longrightarrow>
   ForEach run (st1\<lparr>wakenUp := False\<rparr>) = (r, st2) \<Longrightarrow>
     after_wait_kqueue F callback run n st =
       (case r of
          Some E \<Rightarrow> (Some (Returned E), st2)
        | None \<Rightarrow> (None, if n = size_el (el st2) then st2\<lparr>el := increase zero_Kevent_t (el st2)\<rparr> else st2))"
  by (cases r) (simp_all add: after_wait_kqueue_def)

lemma after_wait_kqueue_trace:
  assumes "after_wait_kqueue F callback run n st = (oc, st')"
  shows "\<exists>new. trace st' = trace st @ new \<and> run_shape 0 (ending oc) new"
proof -
  obtain fl st1 where ev: "events_loop_kqueue F callback n 0 st = (fl, st1)"
    by (cases "events_loop_kqueue F callback n 0 st")
  then obtain new1 where n1: "trace st1 = trace st @ new1" "dispatch_shape 0 fl new1"
    by (auto dest: events_loop_kqueue_trace)
  note d = dispatch_run_shape [OF n1(2)]
  show ?thesis
  proof (cases fl)
    case (Return E)
    with assms after_wait_kqueue_Return [of F callback n st E st1 run] ev
    have "oc = Some (Returned E)" "st' = st1" by simp_all
    with n1 d Return show ?thesis
      by (intro exI [of _ new1]) (simp add: ending_def)
  next
    case IndexPanic
    with assms after_wait_kqueue_IndexPanic [of F callback n st st1 run] ev
    have "oc = Some Panicked" "st' = st1" by simp_all
    with n1 d IndexPanic show ?thesis
      by (intro exI [of _ new1]) (simp add: ending_def)
  next
    case Next
    show ?thesis
    proof (cases "wakenUp st1")
      case False
      with assms after_wait_kqueue_Next_asleep [of F callback n st st1 run] ev Next
      have "oc = None \<and> trace st' = trace st1" by (auto split: if_splits)
      with n1 d Next show ?thesis
        by (intro exI [of _ new1]) (simp add: ending_def)
    next
      case True
      obtain r st2 where fe: "ForEach run (st1\<lparr>wakenUp := False\<rparr>) = (r, st2)"
        by (cases "ForEach run (st1\<lparr>wakenUp := False\<rparr>)")
      then obtain new2 where n2: "trace st2 = trace st1 @ new2" "batch_shape r new2"
        by (auto dest: ForEach_trace)
      have sh: "run_shape 0 (case r of Some E \<Rightarrow> Returned E | None \<Rightarrow> Blocked) (new1 @ new2)"
        using Next d batch_run_shape [OF n2(2)]
        by (intro run_shape_append) simp_all
      have "ending oc = (case r of Some E \<Rightarrow> Returned E | None \<Rightarrow> Blocked) \<and> trace st' = trace st2"
        using assms after_wait_kqueue_Next_woken [of F callback n st st1 run r st2] ev Next True fe
        by (cases r) (auto simp: ending_def split: if_splits)
      with sh n1 n2 show ?thesis
        by (intro exI [of _ "new1 @ new2"]) simp
    qed
  qed
qed

lemma run_shape_Cons:
  "callback_fd x = None \<Longrightarrow> callback_error x = None \<Longrightarrow> run_shape w out new \<Longrightarrow>
     (\<forall>E. out = Returned E \<longrightarrow> new \<noteq> []) \<Longrightarrow> run_shape w out (x # new)"
  using run_shape_append [of w "[x]" out new] by (simp add: run_shape_def)

lemma run_shape_quiet_single:
  "callback_fd x = None \<Longrightarrow> callback_error x = None \<Longrightarrow> run_shape w Blocked [x]"
  by (simp add: run_shape_def)

lemma Polling_iter_epoll_trace:
  assumes "Polling_iter_epoll callback run p w st = (oc, st')"
  shows "\<exists>new. trace st' = trace st @ new \<and> run_shape (wfd p) (ending oc) new"
proof -
  let ?c = "Sys (EpollWait (fd p) (length (events (el st))) (- 1)) :: 32 word effect"
  let ?st1 = "st\<lparr>el := (el st)\<lparr>events := kernel_fill (events (el st)) (wait_written w)\<rparr>,
                 trace := trace st @ [?c]\<rparr>"
  have c: "run_shape (wfd p) Blocked [?c]"
    by (simp add: run_shape_def)
  show ?thesis
  proof (cases "\<exists>e. wait_err w = Some e \<and> e \<noteq> EINTR")
    case True
    then obtain e where e: "wait_err w = Some e" "e \<noteq> EINTR" by blast
    with assms have "oc = None" "trace st' = trace st @ [?c, Log e]"
      by (auto simp: Polling_iter_epoll_def)
    then show ?thesis
      by (intro exI [of _ "[?c, Log e]"]) (simp add: run_shape_def ending_def)
  next
    case False
    with assms have "after_wait_epoll callback run p (wait_n w) ?st1 = (oc, st')"
      by (auto simp: Polling_iter_epoll_def Let_def split: option.splits if_splits)
    then obtain new where "trace st' = trace ?st1 @ new" "run_shape (wfd p) (ending oc) new"
      by (auto dest: after_wait_epoll_trace)
    then show ?thesis
      using run_shape_append [OF c, of "ending oc" new]
      by (intro exI [of _ "?c # new"]) simp
  qed
qed

lemma Polling_iter_kqueue_trace:
  assumes "Polling_iter_kqueue F callback run p w st = (oc, st')"
  shows "\<exists>new. trace st' = trace st @ new \<and> run_shape 0 (ending oc) new"
proof -
  let ?c = "Sys (Kevent (kfd p) [] (length (events (el st)))) :: 16 word effect"
  let ?st1 = "st\<lparr>el := (el st)\<lparr>events := kernel_fill (events (el st)) (wait_written w)\<rparr>,
                 trace := trace st @ [?c]\<rparr>"
  have c: "run_shape 0 Blocked [?c]"
    by (simp add: run_shape_def)
  show ?thesis
  proof (cases "\<exists>e. wait_err w = Some e \<and> e \<noteq> EINTR")
    case True
    then obtain e where e: "wait_err w = Some e" "e \<noteq> EINTR" by blast
    with assms have "oc = None" "trace st' = trace st @ [?c, Log e]"
      by (auto simp: Polling_iter_kqueue_def)
    then show ?thesis
      by (intro exI [of _ "[?c, Log e]"]) (simp add: run_shape_def ending_def)
  next
    case False
    with assms have "after_wait_kqueue F callback run (wait_n w) ?st1 = (oc, st')"
      by (auto simp: Polling_iter_kqueue_def Let_def split: option.splits if_splits)
    then obtain new where "trace st' = trace ?st1 @ new" "run_shape 0 (ending oc) new"
      by (auto dest: after_wait_kqueue_trace)
    then show ?thesis
      using run_shape_append [OF c, of "ending oc" new]
      by (intro exI [of _ "?c # new"]) simp
  qed
qed

lemma Polling_loop_epoll_trace:
  "Polling_loop_epoll callback run p ws st = (out, st') \<Longrightarrow>
     \<exists>new. trace st' = trace st @ new \<and> run_shape (wfd p) out new"
proof (induction ws arbitrary: st)
  case Nil
  then show ?case
    by (intro exI [of _ "[Sys (EpollWait (fd p) (length (events (el st))) (- 1))]"])
       (auto simp: run_shape_def)
next
  case (Cons w ws)
  obtain oc st1 where it: "Polling_iter_epoll callback run p w st = (oc, st1)"
    by (cases "Polling_iter_epoll callback run p w st")
  then obtain new1 where n1: "trace st1 = trace st @ new1" "run_shape (wfd p) (ending oc) new1"
    by (auto dest: Polling_iter_epoll_trace)
  show ?case
  proof (cases oc)
    case (Some out')
    with Cons.prems it n1 show ?thesis by (auto simp: ending_def)
  next
    case None
    with Cons.prems it have "Polling_loop_epoll callback run p ws st1 = (out, st')" by simp
    then obtain new2 where "trace st' = trace st1 @ new2" "run_shape (wfd p) out new2"
      using Cons.IH by blast
    with n1 None show ?thesis
      by (intro exI [of _ "new1 @ new2"]) (simp add: ending_def run_shape_append)
  qed
qed

lemma Polling_loop_kqueue_trace:
  "Polling_loop_kqueue F callback run p ws st = (out, st') \<Longrightarrow>
     \<exists>new. trace st' = trace st @ new \<and> run_shape 0 out new"
proof (induction ws arbitrary: st)
  case Nil
  then show ?case
    by (intro exI [of _ "[Sys (Kevent (kfd p) [] (length (events (el st))))]"])
       (auto simp: run_shape_def)
next
  case (Cons w ws)
  obtain oc st1 where it: "Polling_iter_kqueue F callback run p w st = (oc, st1)"
    by (cases "Polling_iter_kqueue F callback run p w st")
  then obtain new1 where n1: "trace st1 = trace st @ new1" "run_shape 0 (ending oc) new1"
    by (auto dest: Polling_iter_kqueue_trace)
  show ?case
  proof (cases oc)
    case (Some out')
    with Cons.prems it n1 show ?thesis by (auto simp: ending_def)
  next
    case None
    with Cons.prems it have "Polling_loop_kqueue F callback run p ws st1 = (out, st')" by simp
    then obtain new2 where "trace st' = trace st1 @ new2" "run_shape 0 out new2"
      using Cons.IH by blast
    with n1 None show ?thesis
      by (intro exI [of _ "new1 @ new2"]) (simp add: ending_def run_shape_append)
  qed
qed

lemma run_shape_failure_is_last:
  assumes "run_shape w out new" and "new = pre @ x # post" and "callback_error x = Some E"
  shows "post = [] \<and> out = Returned E"
proof (cases "quiet new")
  case True
  with assms(2,3) show ?thesis by auto
next
  case False
  with assms(1) obtain E' where "out = Returned E'" "stops_at E' new"
    by (cases out) (auto simp: run_shape_def)
  with stops_at_last [OF this(2) assms(2,3)] show ?thesis by simp
qed

lemma Polling_loop_epoll_skip:
  "Polling_iter_epoll callback run p w st = (None, st1) \<Longrightarrow>
     Polling_loop_epoll callback run p (w # ws) st = Polling_loop_epoll callback run p ws st1"
  by simp

lemma Polling_iter_epoll_logged:
  "wait_err w = Some e \<Longrightarrow> e \<noteq> EINTR \<Longrightarrow>
     Polling_iter_epoll callback run p w st =
       (None, st\<lparr>el := (el st)\<lparr>events := kernel_fill (events (el st)) (wait_written w)\<rparr>,
                  trace := trace st @ [Sys (EpollWait (fd p) (length (events (el st))) (- 1)), Log e]\<rparr>)"
  by (simp add: Polling_iter_epoll_def)

lemma Polling_iter_epoll_interrupted:
  "wait_err w = Some EINTR \<Longrightarrow> wait_n w < 0 \<Longrightarrow> \<not> wakenUp st \<Longrightarrow> 0 \<le> size_el (el st) \<Longrightarrow>
     Polling_iter_epoll callback run p w st =
       (None, st\<lparr>el := (el st)\<lparr>events := kernel_fill (events (el st)) (wait_written w)\<rparr>,
                  trace := trace st @ [Sys (EpollWait (fd p) (length (events (el st))) (- 1))]\<rparr>)"
  by (simp add: Polling_iter_epoll_def after_wait_epoll_def events_loop_epoll_end)

lemma Polling_loop_epoll_returned:
  assumes "Polling_loop_epoll callback run p ws st = (Returned E, st')"
  shows "trace st' \<noteq> [] \<and>
         (callback_error (last (trace st')) = Some E \<or> job_error (last (trace st')) = Some E)"
proof -
  from Polling_loop_epoll_trace [OF assms] obtain new where
    "trace st' = trace st @ new" "run_shape (wfd p) (Returned E) new" by blast
  then show ?thesis by (auto simp: run_shape_def)
qed

lemma Polling_loop_epoll_failing_waits:
  "\<forall>w\<in>set ws. wait_err w \<noteq> None \<and> wait_n w < 0 \<Longrightarrow> \<not> wakenUp st \<Longrightarrow>
   0 \<le> size_el (el st) \<Longrightarrow> fst (Polling_loop_epoll callback run p ws st) = Blocked"
proof (induction ws arbitrary: st)
  case Nil
  then show ?case by simp
next
  case (Cons w ws)
  then obtain e where e: "wait_err w = Some e" and n: "wait_n w < 0" by auto
  let ?el = "(el st)\<lparr>events := kernel_fill (events (el st)) (wait_written w)\<rparr>"
  show ?case
  proof (cases "e = EINTR")
    case True
    with e n Cons.prems
    have "Polling_loop_epoll callback run p (w # ws) st =
          Polling_loop_epoll callback run p ws
            (st\<lparr>el := ?el, trace := trace st @ [Sys (EpollWait (fd p) (length (events (el st))) (- 1))]\<rparr>)"
      by (intro Polling_loop_epoll_skip Polling_iter_epoll_interrupted) simp_all
    with Cons.prems show ?thesis by (simp add: Cons.IH)
  next
    case False
    with e
    have "Polling_loop_epoll callback run p (w # ws) st =
          Polling_loop_epoll callback run p ws
            (st\<lparr>el := ?el, trace := trace st @ [Sys (EpollWait (fd p) (length (events (el st))) (- 1)), Log e]\<rparr>)"
      by (intro Polling_loop_epoll_skip Polling_iter_epoll_logged)
    with Cons.prems show ?thesis by (simp add: Cons.IH)
  qed
qed

lemma Polling_loop_kqueue_skip:
  "Polling_iter_kqueue F callback run p w st = (None, st1) \<Longrightarrow>
     Polling_loop_kqueue F callback run p (w # ws) st = Polling_loop_kqueue F callback run p ws st1"
  by simp

lemma Polling_iter_kqueue_logged:
  "wait_err w = Some e \<Longrightarrow> e \<noteq> EINTR \<Longrightarrow>
     Polling_iter_kqueue F callback run p w st =
       (None, st\<lparr>el := (el st)\<lparr>events := kernel_fill (events (el st)) (wait_written w)\<rparr>,
                  trace := trace st @ [Sys (Kevent (kfd p) [] (length (events (el st)))), Log e]\<rparr>)"
  by (simp add: Polling_iter_kqueue_def)

lemma Polling_iter_kqueue_interrupted:
  "wait_err w = Some EINTR \<Longrightarrow> wait_n w < 0 \<Longrightarrow> \<not> wakenUp st \<Longrightarrow> 0 \<le> size_el (el st) \<Longrightarrow>
     Polling_iter_kqueue F callback run p w st =
       (None, st\<lparr>el := (el st)\<lparr>events := kernel_fill (events (el st)) (wait_written w)\<rparr>,
                  trace := trace st @ [Sys (Kevent (kfd p) [] (length (events (el st))))]\<rparr>)"
  by (simp add: Polling_iter_kqueue_def after_wait_kqueue_def events_loop_kqueue_end)

lemma Polling_loop_kqueue_returned:
  assumes "Polling_loop_kqueue F callback run p ws st = (Returned E, st')"
  shows "trace st' \<noteq> [] \<and>
         (callback_error (last (trace st')) = Some E \<or> job_error (last (trace st')) = Some E)"
proof -
  from Polling_loop_kqueue_trace [OF assms] obtain new where
    "trace st' = trace st @ new" "run_shape 0 (Returned E) new" by blast
  then show ?thesis by (auto simp: run_shape_def)
qed

lemma Polling_loop_kqueue_failing_waits:
  "\<forall>w\<in>set ws. wait_err w \<noteq> None \<and> wait_n w < 0 \<Longrightarrow> \<not> wakenUp st \<Longrightarrow>
   0 \<le> size_el (el st) \<Longrightarrow> fst (Polling_loop_kqueue F callback run p ws st) = Blocked"
proof (induction ws arbitrary: st)
  case Nil
  then show ?case by simp
next
  case (Cons w ws)
  then obtain e where e: "wait_err w = Some e" and n: "wait_n w < 0" by auto
  let ?el = "(el st)\<lparr>events := kernel_fill (events (el st)) (wait_written w)\<rparr>"
  show ?case
  proof (cases "e = EINTR")
    case True
    with e n Cons.prems
    have "Polling_loop_kqueue F callback run p (w # ws) st =
          Polling_loop_kqueue F callback run p ws
            (st\<lparr>el := ?el, trace := trace st @ [Sys (Kevent (kfd p) [] (length (events (el st))))]\<rparr>)"
      by (intro Polling_loop_kqueue_skip Polling_iter_kqueue_interrupted) simp_all
    with Cons.prems show ?thesis by (simp add: Cons.IH)
  next
    case False
    with e
    have "Polling_loop_kqueue F callback run p (w # ws) st =
          Polling_loop_kqueue F callback run p ws
            (st\<lparr>el := ?el, trace := trace st @ [Sys (Kevent (kfd p) [] (length (events (el st)))), Log e]\<rparr>)"
      by (intro Polling_loop_kqueue_skip Polling_iter_kqueue_logged)
    with Cons.prems show ?thesis by (simp add: Cons.IH)
  qed
qed

lemma after_wait_epoll_capacity:
  assumes "after_wait_epoll callback run p n st = (oc, st')"
  shows "el st' = (if oc = None \<and> n = size_el (el st) then increase zero_EpollEvent (el st) else el st)"
proof -
  obtain fl st1 where ev: "events_loop_epoll callback p n 0 st = (fl, st1)"
    by (cases "events_loop_epoll callback p n 0 st")
  then have el1: "el st1 = el st" by (rule events_loop_epoll_el)
  show ?thesis
  proof (cases fl)
    case (Return E)
    with assms after_wait_epoll_Return [of callback p n st E st1 run] ev el1 show ?thesis by auto
  next
    case IndexPanic
    with assms after_wait_epoll_IndexPanic [of callback p n st st1 run] ev el1 show ?thesis by auto
  next
    case Next
    show ?thesis
    proof (cases "wakenUp st1")
      case False
      with assms after_wait_epoll_Next_asleep [of callback p n st st1 run] ev Next el1
      show ?thesis by (auto split: if_splits)
    next
      case True
      obtain r st2 where fe: "ForEach run (st1\<lparr>wakenUp := False\<rparr>) = (r, st2)"
        by (cases "ForEach run (st1\<lparr>wakenUp := False\<rparr>)")
      then have "el st2 = el st" using ForEach_locals [OF fe] el1 by simp
      with assms after_wait_epoll_Next_woken [of callback p n st st1 run r st2] ev Next True fe
      show ?thesis by (cases r) (auto split: if_splits)
    qed
  qed
qed

lemma Polling_iter_epoll_capacity:
  assumes "Polling_iter_epoll callback run p w st = (oc, st')"
  shows "size_el (el st') =
           (if oc = None \<and> wait_n w = size_el (el st) \<and> (wait_err w = None \<or> wait_err w = Some EINTR)
            then 2 * size_el (el st) else size_el (el st))"
    and "length (events (el st)) = nat (size_el (el st)) \<Longrightarrow>
           length (events (el st')) = nat (size_el (el st'))"
proof -
  let ?el = "(el st)\<lparr>events := kernel_fill (events (el st)) (wait_written w)\<rparr>"
  have len: "length (events ?el) = length (events (el st))" "size_el ?el = size_el (el st)"
    by (simp_all add: kernel_fill_def)
  have "size_el (el st') =
           (if oc = None \<and> wait_n w = size_el (el st) \<and> (wait_err w = None \<or> wait_err w = Some EINTR)
            then 2 * size_el (el st) else size_el (el st))
        \<and> (length (events (el st)) = nat (size_el (el st)) \<longrightarrow>
           length (events (el st')) = nat (size_el (el st')))"
  proof (cases "\<exists>e. wait_err w = Some e \<and> e \<noteq> EINTR")
    case True
    then obtain e where e: "wait_err w = Some e" "e \<noteq> EINTR" by blast
    with assms len show ?thesis
      by (auto simp: Polling_iter_epoll_logged [OF e])
  next
    case False
    let ?st1 = "st\<lparr>el := ?el, trace := trace st @ [Sys (EpollWait (fd p) (length (events (el st))) (- 1))]\<rparr>"
    from False assms have "after_wait_epoll callback run p (wait_n w) ?st1 = (oc, st')"
      by (auto simp: Polling_iter_epoll_def Let_def split: option.splits if_splits)
    from after_wait_epoll_capacity [OF this] False len show ?thesis
      by (auto simp: increase_def)
  qed
  then show "size_el (el st') =
           (if oc = None \<and> wait_n w = size_el (el st) \<and> (wait_err w = None \<or> wait_err w = Some EINTR)
            then 2 * size_el (el st) else size_el (el st))"
    and "length (events (el st)) = nat (size_el (el st)) \<Longrightarrow>
           length (events (el st')) = nat (size_el (el st'))"
    by simp_all
qed

lemma Polling_loop_epoll_capacity:
  "Polling_loop_epoll callback run p ws st = (out, st') \<Longrightarrow> 0 \<le> size_el (el st) \<Longrightarrow>
     size_el (el st) \<le> size_el (el st')"
proof (induction ws arbitrary: st)
  case Nil
  then show ?case by auto
next
  case (Cons w ws)
  obtain oc st1 where it: "Polling_iter_epoll callback run p w st = (oc, st1)"
    by (cases "Polling_iter_epoll callback run p w st")
  from Polling_iter_epoll_capacity(1) [OF it] Cons.prems(2)
  have le: "size_el (el st) \<le> size_el (el st1)" by (simp split: if_splits)
  show ?case
  proof (cases oc)
    case (Some out')
    with Cons.prems it le show ?thesis by simp
  next
    case None
    with Cons.prems it have "Polling_loop_epoll callback run p ws st1 = (out, st')" by simp
    from Cons.IH [OF this] le Cons.prems(2) show ?thesis by simp
  qed
qed

lemma after_wait_kqueue_capacity:
  assumes "after_wait_kqueue F callback run n st = (oc, st')"
  shows "el st' = (if oc = None \<and> n = size_el (el st) then increase zero_Kevent_t (el st) else el st)"
proof -
  obtain fl st1 where ev: "events_loop_kqueue F callback n 0 st = (fl, st1)"
    by (cases "events_loop_kqueue F callback n 0 st")
  then have el1: "el st1 = el st" by (rule events_loop_kqueue_el)
  show ?thesis
  proof (cases fl)
    case (Return E)
    with assms after_wait_kqueue_Return [of F callback n st E st1 run] ev el1 show ?thesis by auto
  next
    case IndexPanic
    with assms after_wait_kqueue_IndexPanic [of F callback n st st1 run] ev el1 show ?thesis by auto
  next
    case Next
    show ?thesis
    proof (cases "wakenUp st1")
      case False
      with assms after_wait_kqueue_Next_asleep [of F callback n st st1 run] ev Next el1
      show ?thesis by (auto split: if_splits)
    next
      case True
      obtain r st2 where fe: "ForEach run (st1\<lparr>wakenUp := False\<rparr>) = (r, st2)"
        by (cases "ForEach run (st1\<lparr>wakenUp := False\<rparr>)")
      then have "el st2 = el st" using ForEach_locals [OF fe] el1 by simp
      with assms after_wait_kqueue_Next_woken [of F callback n st st1 run r st2] ev Next True fe
      show ?thesis by (cases r) (auto split: if_splits)
    qed
  qed
qed

lemma Polling_iter_kqueue_capacity:
  assumes "Polling_iter_kqueue F callback run p w st = (oc, st')"
  shows "size_el (el st') =
           (if oc = None \<and> wait_n w = size_el (el st) \<and> (wait_err w = None \<or> wait_err w = Some EINTR)
            then 2 * size_el (el st) else size_el (el st))"
    and "length (events (el st)) = nat (size_el (el st)) \<Longrightarrow>
           length (events (el st')) = nat (size_el (el st'))"
proof -
  let ?el = "(el st)\<lparr>events := kernel_fill (events (el st)) (wait_written w)\<rparr>"
  have len: "length (events ?el) = length (events (el st))" "size_el ?el = size_el (el st)"
    by (simp_all add: kernel_fill_def)
  have "size_el (el st') =
           (if oc = None \<and> wait_n w = size_el (el st) \<and> (wait_err w = None \<or> wait_err w = Some EINTR)
            then 2 * size_el (el st) else size_el (el st))
        \<and> (length (events (el st)) = nat (size_el (el st)) \<longrightarrow>
           length (events (el st')) = nat (size_el (el st')))"
  proof (cases "\<exists>e. wait_err w = Some e \<and> e \<noteq> EINTR")
    case True
    then obtain e where e: "wait_err w = Some e" "e \<noteq> EINTR" by blast
    with assms len show ?thesis
      by (auto simp: Polling_iter_kqueue_logged [OF e])
  next
    case False
    let ?st1 = "st\<lparr>el := ?el, trace := trace st @ [Sys (Kevent (kfd p) [] (length (events (el st))))]\<rparr>"
    from False assms have "after_wait_kqueue F callback run (wait_n w) ?st1 = (oc, st')"
      by (auto simp: Polling_iter_kqueue_def Let_def split: option.splits if_splits)
    from after_wait_kqueue_capacity [OF this] False len show ?thesis
      by (auto simp: increase_def)
  qed
  then show "size_el (el st') =
           (if oc = None \<and> wait_n w = size_el (el st) \<and> (wait_err w = None \<or> wait_err w = Some EINTR)
            then 2 * size_el (el st) else size_el (el st))"
    and "length (events (el st)) = nat (size_el (el st)) \<Longrightarrow>
           length (events (el st')) = nat (size_el (el st'))"
    by simp_all
qed

lemma Polling_loop_kqueue_capacity:
  "Polling_loop_kqueue F callback run p ws st = (out, st') \<Longrightarrow> 0 \<le> size_el (el st) \<Longrightarrow>
     size_el (el st) \<le> size_el (el st')"
proof (induction ws arbitrary: st)
  case Nil
  then show ?case by auto
next
  case (Cons w ws)
  obtain oc st1 where it: "Polling_iter_kqueue F callback run p w st = (oc, st1)"
    by (cases "Polling_iter_kqueue F callback run p w st")
  from Polling_iter_kqueue_capacity(1) [OF it] Cons.prems(2)
  have le: "size_el (el st) \<le> size_el (el st1)" by (simp split: if_splits)
  show ?case
  proof (cases oc)
    case (Some out')
    with Cons.prems it le show ?thesis by simp
  next
    case None
    with Cons.prems it have "Polling_loop_kqueue F callback run p ws st1 = (out, st')" by simp
    from Cons.IH [OF this] le Cons.prems(2) show ?thesis by simp
  qed
qed

lemma jobs_push_all: "jobs (foldl (\<lambda>q j. snd (Push j q)) q js) = jobs q @ js"
  by (induction js arbitrary: q) (simp_all add: Push_def)

lemma queue_absorb [simp]: "jobs (queue (absorb r st)) = jobs (queue st) @ pushed r"
  by (simp add: absorb_def jobs_push_all)

lemma run_batch_fifo:
  "run_batch run js st = (r, st') \<Longrightarrow>
     \<exists>k. (case r of None \<Rightarrow> k = length js | Some E \<Rightarrow> k < length js)
       \<and> trace st' = trace st @ batch_runs js k r
       \<and> jobs (queue st') = jobs (queue st) @ pushed_during run js (app st)"
proof (induction js arbitrary: st)
  case Nil
  then show ?case by (auto simp: batch_runs_def)
next
  case (Cons j js)
  let ?r = "run j (app st)"
  let ?st1 = "(absorb ?r st)\<lparr>trace := trace st @ [JobRun j (result ?r)]\<rparr>"
  show ?case
  proof (cases "result ?r")
    case (Some E)
    with Cons.prems have "r = Some E \<and> st' = ?st1" by (auto simp: Let_def)
    with Some show ?thesis
      by (intro exI [of _ 0]) (simp add: batch_runs_def)
  next
    case None
    with Cons.prems have "run_batch run js ?st1 = (r, st')" by (simp add: Let_def)
    from Cons.IH [OF this] obtain k where k:
      "case r of None \<Rightarrow> k = length js | Some E \<Rightarrow> k < length js"
      "trace st' = trace ?st1 @ batch_runs js k r"
      "jobs (queue st') = jobs (queue ?st1) @ pushed_during run js (app ?st1)"
      by blast
    with None show ?thesis
      by (intro exI [of _ "Suc k"]) (auto simp: batch_runs_def split: option.splits)
  qed
qed

lemma ForEach_fifo:
  assumes "ForEach run st = (r, st')"
  shows "\<exists>k. (case r of None \<Rightarrow> k = length (jobs (queue st)) | Some E \<Rightarrow> k < length (jobs (queue st)))
       \<and> trace st' = trace st @ ForEachCall # batch_runs (jobs (queue st)) k r
       \<and> jobs (queue st') = pushed_during run (jobs (queue st)) (app st)"
  using run_batch_fifo [OF assms [unfolded ForEach_def]] by simp

lemma visit_next:
  "0 \<le> i \<Longrightarrow> i < n \<Longrightarrow> i < int (length evs) \<Longrightarrow>
     drop (nat i) (take (nat n) evs) = evs ! nat i # drop (nat (i + 1)) (take (nat n) evs)"
proof -
  assume a: "0 \<le> i" "i < n" "i < int (length evs)"
  then have "nat i < length (take (nat n) evs)" by simp
  from Cons_nth_drop_Suc [OF this] a show ?thesis
    by (simp add: nat_add_distrib)
qed

lemma visit_none: "\<not> i < n \<or> int (length evs) \<le> i \<Longrightarrow> 0 \<le> i \<Longrightarrow> drop (nat i) (take (nat n) evs) = []"
  by auto

lemma kq_filter_bits:
  "kq_filter F e = (if bit (Flags e) 15 \<or> bit (Flags e) 14 then F else Filter e)"
  using and_exp_eq_0_iff_not_bit [of "Flags e" 15] and_exp_eq_0_iff_not_bit [of "Flags e" 14]
  by (simp add: kq_filter_def EV_EOF_def EV_ERROR_def)

lemma events_loop_kqueue_dispatched:
  "events_loop_kqueue F callback n i st = (fl, st') \<Longrightarrow> 0 \<le> i \<Longrightarrow>
     \<exists>new. trace st' = trace st @ new
       \<and> prefix (callbacks_of new) (dispatched_kqueue F (drop (nat i) (take (nat n) (events (el st)))))
       \<and> (fl = Next \<longrightarrow>
            callbacks_of new = dispatched_kqueue F (drop (nat i) (take (nat n) (events (el st)))))"
proof (induction i st arbitrary: fl st' rule: events_loop_kqueue_cases [where callback = callback and F = F and n = n])
  case (finished i st)
  then show ?case by (simp add: events_loop_kqueue_end dispatched_kqueue_def)
next
  case (outside i st)
  then show ?case by (auto simp: events_loop_kqueue_panic dispatched_kqueue_def)
next
  case (wake i st)
  from wake.prems wake.hyps obtain new where new:
    "trace st' = trace st @ new"
    "prefix (callbacks_of new) (dispatched_kqueue F (drop (nat (i + 1)) (take (nat n) (events (el st)))))"
    "fl = Next \<longrightarrow>
       callbacks_of new = dispatched_kqueue F (drop (nat (i + 1)) (take (nat n) (events (el st))))"
    using wake.IH [of fl st'] by (auto simp: events_loop_kqueue_wake)
  from wake.hyps have "Ident (events (el st) ! nat i) = 0" by (simp add: signed_eq_0_iff)
  with new wake.hyps show ?case
    by (intro exI [of _ new]) (simp add: visit_next dispatched_kqueue_def)
next
  case (fail i st e r E)
  from fail.prems fail.hyps have "fl = Return E"
    "trace st' = trace st @ [Callback (sint (Ident e)) (kq_filter F e) (Some E)]"
    by (auto simp: events_loop_kqueue_fail [where e = e and r = r and E = E])
  moreover from fail.hyps have "Ident e \<noteq> 0" by (auto simp: signed_eq_0_iff)
  ultimately show ?case
    using fail.hyps
    by (intro exI [of _ "[Callback (sint (Ident e)) (kq_filter F e) (Some E)]"])
       (simp add: visit_next dispatched_kqueue_def)
next
  case (ok i st e r)
  let ?c = "Callback (sint (Ident e)) (kq_filter F e) None :: 16 word effect"
  from ok.prems ok.hyps obtain new where new:
    "trace st' = trace st @ ?c # new"
    "prefix (callbacks_of new) (dispatched_kqueue F (drop (nat (i + 1)) (take (nat n) (events (el st)))))"
    "fl = Next \<longrightarrow>
       callbacks_of new = dispatched_kqueue F (drop (nat (i + 1)) (take (nat n) (events (el st))))"
    using ok.IH [of fl st'] by (auto simp: events_loop_kqueue_ok [where e = e and r = r])
  moreover from ok.hyps have "Ident e \<noteq> 0" by (auto simp: signed_eq_0_iff)
  ultimately show ?case
    using ok.hyps
    by (intro exI [of _ "?c # new"]) (simp add: visit_next dispatched_kqueue_def)
qed

section \<open>The reactor loop\<close>

text \<open>
  C2. Whenever an invocation of the callback returns an error \<open>E\<close>, that invocation is
  the last effect of \<open>Polling\<close> and \<open>Polling\<close> returns \<open>E\<close>: after it no record is
  dispatched, \<open>ForEach\<close> is not invoked, no job runs and no wait call is issued. This
  holds from every state of the loop, on both backends.
\<close>

theorem Polling_returns_callback_error_at_once:
  "(Polling_loop_epoll callback run p ws st = (out, st') \<and>
      trace st' = trace st @ pre @ x # post \<and> callback_error x = Some E
      \<longrightarrow> post = [] \<and> out = Returned E)
   \<and> (Polling_loop_kqueue F kcallback krun k kws kst = (kout, kst') \<and>
      trace kst' = trace kst @ kpre @ kx # kpost \<and> callback_error kx = Some KE
      \<longrightarrow> kpost = [] \<and> kout = Returned KE)"
proof (intro conjI impI; elim conjE)
  assume a: "Polling_loop_epoll callback run p ws st = (out, st')"
    "trace st' = trace st @ pre @ x # post" "callback_error x = Some E"
  from Polling_loop_epoll_trace [OF a(1)] obtain new where
    "trace st' = trace st @ new" "run_shape (wfd p) out new" by blast
  with a(2) have "new = pre @ x # post" by simp
  from run_shape_failure_is_last [OF \<open>run_shape (wfd p) out new\<close> this a(3)]
  show "post = []" "out = Returned E" by simp_all
next
  assume a: "Polling_loop_kqueue F kcallback krun k kws kst = (kout, kst')"
    "trace kst' = trace kst @ kpre @ kx # kpost" "callback_error kx = Some KE"
  from Polling_loop_kqueue_trace [OF a(1)] obtain new where
    "trace kst' = trace kst @ new" "run_shape 0 kout new" by blast
  with a(2) have "new = kpre @ kx # kpost" by simp
  from run_shape_failure_is_last [OF \<open>run_shape 0 kout new\<close> this a(3)]
  show "kpost = []" "kout = Returned KE" by simp_all
qed

text \<open>
  C2, on the example: the batch holds a wake notification and then a record for
  descriptor 7, on which the callback fails. \<open>Polling\<close> returns that error; the three
  queued jobs are not run although the wake notification came first.
\<close>

theorem Polling_returns_callback_error_at_once_witness:
  "fst (Polling_loop_epoll ex_callback ex_run ex_epoll [ex_wait_epoll] ex_state_epoll)
     = Returned (Failure 1)
   \<and> trace (snd (Polling_loop_epoll ex_callback ex_run ex_epoll [ex_wait_epoll] ex_state_epoll))
     = trace ex_state_epoll @ [Sys (EpollWait 3 2 (- 1)), Sys (SysRead 4 8)]
         @ Callback 7 EPOLLIN (Some (Failure 1)) # []
   \<and> fst (Polling_loop_kqueue (- 13) ex_callback ex_run ex_kqueue [ex_wait_kqueue] ex_state_kqueue)
     = Returned (Failure 1)
   \<and> trace (snd (Polling_loop_kqueue (- 13) ex_callback ex_run ex_kqueue [ex_wait_kqueue] ex_state_kqueue))
     = trace ex_state_kqueue @ [Sys (Kevent 3 [] 2)] @ Callback 7 (- 13) (Some (Failure 1)) # []"
proof -
  let ?R = "Polling_loop_epoll ex_callback ex_run ex_epoll [ex_wait_epoll] ex_state_epoll"
  let ?K = "Polling_loop_kqueue (- 13) ex_callback ex_run ex_kqueue [ex_wait_kqueue] ex_state_kqueue"
  have r1: "fst ?R = Returned (Failure 1)"
    by code_simp
  have r2: "trace (snd ?R) = trace ex_state_epoll @ [Sys (EpollWait 3 2 (- 1)), Sys (SysRead 4 8)]
         @ Callback 7 EPOLLIN (Some (Failure 1)) # []"
    by code_simp
  have k1: "fst ?K = Returned (Failure 1)"
    by code_simp
  have k2: "trace (snd ?K) = trace ex_state_kqueue @ [Sys (Kevent 3 [] 2)]
         @ Callback 7 (- 13) (Some (Failure 1)) # []"
    by code_simp
  from Polling_returns_callback_error_at_once
    [of ex_callback ex_run ex_epoll "[ex_wait_epoll]" ex_state_epoll "fst ?R" "snd ?R"
        "[Sys (EpollWait 3 2 (- 1)), Sys (SysRead 4 8)]" "Callback 7 EPOLLIN (Some (Failure 1))" "[]"
        "Failure 1" "- 13" ex_callback ex_run ex_kqueue "[ex_wait_kqueue]" ex_state_kqueue
        "fst ?K" "snd ?K" "[Sys (Kevent 3 [] 2)]" "Callback 7 (- 13) (Some (Failure 1))" "[]" "Failure 1"]
    r1 r2 k1 k2
  show ?thesis by simp
qed

text \<open>
  C4. An iteration of \<open>Polling\<close> leaves the capacity of the event list doubled when the
  loop goes on to the next wait call and the wait call returned as many records as the
  capacity, and unchanged in every other case (fewer records, a wait error, which
  reports a negative count, or the end of \<open>Polling\<close>); the buffer handed to the next wait
  call has the length of the capacity. Over any number of iterations the capacity never
  shrinks.
\<close>

theorem capacity_doubles_when_batch_fills_buffer:
  "(Polling_iter_epoll callback run p w st = (oc, st') \<and> (wait_err w \<noteq> None \<longrightarrow> wait_n w < 0)
      \<and> 0 \<le> size_el (el st) \<and> length (events (el st)) = nat (size_el (el st))
      \<longrightarrow> size_el (el st') =
            (if oc = None \<and> wait_n w = size_el (el st) then 2 * size_el (el st) else size_el (el st))
          \<and> length (events (el st')) = nat (size_el (el st')))
   \<and> (Polling_loop_epoll callback run p ws st0 = (out, st1) \<and> 0 \<le> size_el (el st0)
      \<longrightarrow> size_el (el st0) \<le> size_el (el st1))
   \<and> (Polling_iter_kqueue F kcallback krun k kw kst = (koc, kst') \<and> (wait_err kw \<noteq> None \<longrightarrow> wait_n kw < 0)
      \<and> 0 \<le> size_el (el kst) \<and> length (events (el kst)) = nat (size_el (el kst))
      \<longrightarrow> size_el (el kst') =
            (if koc = None \<and> wait_n kw = size_el (el kst) then 2 * size_el (el kst) else size_el (el kst))
          \<and> length (events (el kst')) = nat (size_el (el kst')))
   \<and> (Polling_loop_kqueue F kcallback krun k kws kst0 = (kout, kst1) \<and> 0 \<le> size_el (el kst0)
      \<longrightarrow> size_el (el kst0) \<le> size_el (el kst1))"
proof (intro conjI impI; elim conjE)
  assume a: "Polling_iter_epoll callback run p w st = (oc, st')" "wait_err w \<noteq> None \<longrightarrow> wait_n w < 0"
    "0 \<le> size_el (el st)" "length (events (el st)) = nat (size_el (el st))"
  from Polling_iter_epoll_capacity(1) [OF a(1)] a(2,3)
  show "size_el (el st') =
          (if oc = None \<and> wait_n w = size_el (el st) then 2 * size_el (el st) else size_el (el st))"
    by auto
  from Polling_iter_epoll_capacity(2) [OF a(1) a(4)]
  show "length (events (el st')) = nat (size_el (el st'))" .
next
  assume "Polling_loop_epoll callback run p ws st0 = (out, st1)" "0 \<le> size_el (el st0)"
  then show "size_el (el st0) \<le> size_el (el st1)" by (rule Polling_loop_epoll_capacity)
next
  assume a: "Polling_iter_kqueue F kcallback krun k kw kst = (koc, kst')" "wait_err kw \<noteq> None \<longrightarrow> wait_n kw < 0"
    "0 \<le> size_el (el kst)" "length (events (el kst)) = nat (size_el (el kst))"
  from Polling_iter_kqueue_capacity(1) [OF a(1)] a(2,3)
  show "size_el (el kst') =
          (if koc = None \<and> wait_n kw = size_el (el kst) then 2 * size_el (el kst) else size_el (el kst))"
    by auto
  from Polling_iter_kqueue_capacity(2) [OF a(1) a(4)]
  show "length (events (el kst')) = nat (size_el (el kst'))" .
next
  assume "Polling_loop_kqueue F kcallback krun k kws kst0 = (kout, kst1)" "0 \<le> size_el (el kst0)"
  then show "size_el (el kst0) \<le> size_el (el kst1)" by (rule Polling_loop_kqueue_capacity)
qed

text \<open>
  C4, on the example: with capacity 2, a wait call that returns two records leaves
  capacity 4 and a buffer of length 4 for the next wait call, on both backends.
\<close>

theorem capacity_doubles_when_batch_fills_buffer_witness:
  "fst (Polling_iter_epoll ex_callback ex_run ex_epoll ex_full_epoll ex_state_epoll) = None
   \<and> wait_n ex_full_epoll = size_el (el ex_state_epoll)
   \<and> size_el (el (snd (Polling_iter_epoll ex_callback ex_run ex_epoll ex_full_epoll ex_state_epoll))) = 4
   \<and> length (events (el (snd (Polling_iter_epoll ex_callback ex_run ex_epoll ex_full_epoll ex_state_epoll)))) = 4
   \<and> size_el (el (snd (Polling_loop_epoll ex_callback ex_run ex_epoll [ex_full_epoll, ex_failed] ex_state_epoll))) = 4
   \<and> fst (Polling_iter_kqueue (- 13) ex_callback ex_run ex_kqueue ex_full_kqueue ex_state_kqueue) = None
   \<and> wait_n ex_full_kqueue = size_el (el ex_state_kqueue)
   \<and> size_el (el (snd (Polling_iter_kqueue (- 13) ex_callback ex_run ex_kqueue ex_full_kqueue ex_state_kqueue))) = 4
   \<and> length (events (el (snd (Polling_iter_kqueue (- 13) ex_callback ex_run ex_kqueue ex_full_kqueue ex_state_kqueue)))) = 4
   \<and> size_el (el (snd (Polling_loop_kqueue (- 13) ex_callback ex_run ex_kqueue [ex_full_kqueue, ex_failed] ex_state_kqueue))) = 4"
proof -
  let ?I = "Polling_iter_epoll ex_callback ex_run ex_epoll ex_full_epoll ex_state_epoll"
  let ?L = "Polling_loop_epoll ex_callback ex_run ex_epoll [ex_full_epoll, ex_failed] ex_state_epoll"
  let ?KI = "Polling_iter_kqueue (- 13) ex_callback ex_run ex_kqueue ex_full_kqueue ex_state_kqueue"
  let ?KL = "Polling_loop_kqueue (- 13) ex_callback ex_run ex_kqueue [ex_full_kqueue, ex_failed] ex_state_kqueue"
  have h: "wait_err ex_full_epoll = None" "wait_n ex_full_epoll = 2"
    "size_el (el ex_state_epoll) = 2" "length (events (el ex_state_epoll)) = 2"
    "wait_err ex_full_kqueue = None" "wait_n ex_full_kqueue = 2"
    "size_el (el ex_state_kqueue) = 2" "length (events (el ex_state_kqueue)) = 2"
    by (simp_all add: ex_full_epoll_def ex_full_kqueue_def ex_state_epoll_def ex_state_kqueue_def
          newEventList_def)
  have i: "fst ?I = None" by code_simp
  then have ip: "?I = (None, snd ?I)" by (metis prod.collapse)
  have ki: "fst ?KI = None" by code_simp
  then have kip: "?KI = (None, snd ?KI)" by (metis prod.collapse)
  have l: "size_el (el (snd ?L)) = 4" by code_simp
  have kl: "size_el (el (snd ?KL)) = 4" by code_simp
  have lp: "?L = (fst ?L, snd ?L)" and klp: "?KL = (fst ?KL, snd ?KL)" by simp_all
  from capacity_doubles_when_batch_fills_buffer
    [where callback = ex_callback and run = ex_run and p = ex_epoll and w = ex_full_epoll
       and st = ex_state_epoll and oc = None and st' = "snd ?I"
       and ws = "[ex_full_epoll, ex_failed]" and ?st0.0 = ex_state_epoll and out = "fst ?L" and ?st1.0 = "snd ?L"
       and F = "- 13" and kcallback = ex_callback and krun = ex_run and k = ex_kqueue and kw = ex_full_kqueue
       and kst = ex_state_kqueue and koc = None and kst' = "snd ?KI"
       and kws = "[ex_full_kqueue, ex_failed]" and ?kst0.0 = ex_state_kqueue and kout = "fst ?KL" and ?kst1.0 = "snd ?KL"]
    h ip kip lp klp
  have "size_el (el (snd ?I)) = 4 \<and> length (events (el (snd ?I))) = 4
        \<and> size_el (el (snd ?KI)) = 4 \<and> length (events (el (snd ?KI))) = 4"
    by (simp del: Polling_loop_epoll.simps Polling_loop_kqueue.simps)
  with h i ki l kl
  show ?thesis by (simp del: Polling_loop_epoll.simps Polling_loop_kqueue.simps)
qed

text \<open>
  C5. \<open>ForEach\<close> runs the jobs that were queued when it was called, in the order they
  were pushed: the first \<open>k\<close> jobs of the batch succeed, and either \<open>k\<close> is the whole
  batch and \<open>ForEach\<close> returns \<open>nil\<close>, or job \<open>k\<close> fails, its error is returned and no
  later job of the batch runs. The jobs pushed while the batch ran are not run by this
  \<open>ForEach\<close>: they are what the queue holds afterwards. When the dispatch loop of
  \<open>Polling\<close> has seen a wake notification and \<open>ForEach\<close> returns an error, \<open>Polling\<close>
  returns that error.
\<close>

theorem ForEach_runs_batch_in_order_and_defers_pushes:
  "(ForEach run st = (r, st') \<longrightarrow>
      (\<exists>k. (case r of None \<Rightarrow> k = length (jobs (queue st)) | Some E \<Rightarrow> k < length (jobs (queue st)))
         \<and> trace st' = trace st @ ForEachCall # batch_runs (jobs (queue st)) k r)
      \<and> jobs (queue st') = pushed_during run (jobs (queue st)) (app st))
   \<and> (events_loop_epoll callback p n 0 st0 = (Next, st1) \<and> wakenUp st1
        \<and> ForEach erun (st1\<lparr>wakenUp := False\<rparr>) = (Some E, st2)
      \<longrightarrow> after_wait_epoll callback erun p n st0 = (Some (Returned E), st2))
   \<and> (events_loop_kqueue F kcallback kn 0 kst0 = (Next, kst1) \<and> wakenUp kst1
        \<and> ForEach krun (kst1\<lparr>wakenUp := False\<rparr>) = (Some KE, kst2)
      \<longrightarrow> after_wait_kqueue F kcallback krun kn kst0 = (Some (Returned KE), kst2))"
proof (intro conjI impI)
  assume "ForEach run st = (r, st')"
  from ForEach_fifo [OF this]
  show "\<exists>k. (case r of None \<Rightarrow> k = length (jobs (queue st)) | Some E \<Rightarrow> k < length (jobs (queue st)))
         \<and> trace st' = trace st @ ForEachCall # batch_runs (jobs (queue st)) k r"
    and "jobs (queue st') = pushed_during run (jobs (queue st)) (app st)"
    by blast+
next
  assume "events_loop_epoll callback p n 0 st0 = (Next, st1) \<and> wakenUp st1
        \<and> ForEach erun (st1\<lparr>wakenUp := False\<rparr>) = (Some E, st2)"
  then show "after_wait_epoll callback erun p n st0 = (Some (Returned E), st2)"
    by (simp add: after_wait_epoll_Next_woken)
next
  assume "events_loop_kqueue F kcallback kn 0 kst0 = (Next, kst1) \<and> wakenUp kst1
        \<and> ForEach krun (kst1\<lparr>wakenUp := False\<rparr>) = (Some KE, kst2)"
  then show "after_wait_kqueue F kcallback krun kn kst0 = (Some (Returned KE), kst2)"
    by (simp add: after_wait_kqueue_Next_woken)
qed

text \<open>
  C5, on the example: the queue holds the jobs 10, 11 and 12; job 10 pushes job 30 and
  job 11 fails. \<open>ForEach\<close> runs 10 and 11, returns the error of job 11 and does not run
  12 or 30; the queue then holds job 30. After a wake notification and a record for
  descriptor 5, the rest of the iteration of \<open>Polling\<close> runs the jobs 10 and 11 and
  returns the error of job 11.
\<close>

theorem ForEach_runs_batch_in_order_and_defers_pushes_witness:
  "fst (ForEach ex_run ex_state_epoll) = Some (Failure 2)
   \<and> trace (snd (ForEach ex_run ex_state_epoll))
       = trace ex_state_epoll @ ForEachCall # batch_runs [10, 11, 12] 1 (Some (Failure 2))
   \<and> batch_runs [10, 11, 12] 1 (Some (Failure 2)) = [JobRun 10 None, JobRun 11 (Some (Failure 2)) :: 32 word effect]
   \<and> jobs (queue (snd (ForEach ex_run ex_state_epoll))) = [30]
   \<and> pushed_during ex_run [10, 11, 12] 0 = [30]
   \<and> fst (after_wait_epoll ex_callback ex_run ex_epoll 2
             (ex_state_epoll\<lparr>el := \<lparr>size_el = 2, events = wait_written ex_woken_epoll\<rparr>\<rparr>))
       = Some (Returned (Failure 2))
   \<and> trace (snd (after_wait_epoll ex_callback ex_run ex_epoll 2
             (ex_state_epoll\<lparr>el := \<lparr>size_el = 2, events = wait_written ex_woken_epoll\<rparr>\<rparr>)))
       = [Sys (SysRead 4 8), Callback 5 EPOLLIN None, ForEachCall,
          JobRun 10 None, JobRun 11 (Some (Failure 2))]
   \<and> fst (after_wait_kqueue (- 13) ex_callback ex_run 2
             (ex_state_kqueue\<lparr>el := \<lparr>size_el = 2, events = wait_written ex_woken_kqueue\<rparr>\<rparr>))
       = Some (Returned (Failure 2))
   \<and> trace (snd (after_wait_kqueue (- 13) ex_callback ex_run 2
             (ex_state_kqueue\<lparr>el := \<lparr>size_el = 2, events = wait_written ex_woken_kqueue\<rparr>\<rparr>)))
       = [Callback 5 EVFILT_READ None, ForEachCall, JobRun 10 None, JobRun 11 (Some (Failure 2))]"
proof -
  let ?R = "ForEach ex_run ex_state_epoll"
  let ?S = "ex_state_epoll\<lparr>el := \<lparr>size_el = 2, events = wait_written ex_woken_epoll\<rparr>\<rparr>"
  let ?D = "events_loop_epoll ex_callback ex_epoll 2 0 ?S"
  let ?J = "ForEach ex_run ((snd ?D)\<lparr>wakenUp := False\<rparr>)"
  let ?KS = "ex_state_kqueue\<lparr>el := \<lparr>size_el = 2, events = wait_written ex_woken_kqueue\<rparr>\<rparr>"
  let ?KD = "events_loop_kqueue (- 13) ex_callback 2 0 ?KS"
  let ?KJ = "ForEach ex_run ((snd ?KD)\<lparr>wakenUp := False\<rparr>)"
  have f: "fst ?R = Some (Failure 2)" by code_simp
  then have fp: "?R = (Some (Failure 2), snd ?R)" by (metis prod.collapse)
  have q: "jobs (queue ex_state_epoll) = [10, 11, 12]" "app ex_state_epoll = 0"
    by (simp_all add: ex_state_epoll_def ex_epoll_def)
  have t: "trace (snd ?R) = trace ex_state_epoll @ ForEachCall # batch_runs [10, 11, 12] 1 (Some (Failure 2))"
    by code_simp
  have b: "batch_runs [10, 11, 12] 1 (Some (Failure 2)) = [JobRun 10 None, JobRun 11 (Some (Failure 2)) :: 32 word effect]"
    by code_simp
  have pd: "pushed_during ex_run [10, 11, 12] 0 = [30]" by code_simp
  have "fst ?D = Next" by code_simp
  then have d: "?D = (Next, snd ?D)" by (metis prod.collapse)
  have dw: "wakenUp (snd ?D)" by code_simp
  have "fst ?J = Some (Failure 2)" by code_simp
  then have j: "?J = (Some (Failure 2), snd ?J)" by (metis prod.collapse)
  have jt: "trace (snd ?J) = [Sys (SysRead 4 8), Callback 5 EPOLLIN None, ForEachCall,
          JobRun 10 None, JobRun 11 (Some (Failure 2))]" by code_simp
  have "fst ?KD = Next" by code_simp
  then have kd: "?KD = (Next, snd ?KD)" by (metis prod.collapse)
  have kdw: "wakenUp (snd ?KD)" by code_simp
  have "fst ?KJ = Some (Failure 2)" by code_simp
  then have kj: "?KJ = (Some (Failure 2), snd ?KJ)" by (metis prod.collapse)
  have kjt: "trace (snd ?KJ) = [Callback 5 EVFILT_READ None, ForEachCall,
          JobRun 10 None, JobRun 11 (Some (Failure 2))]" by code_simp
  note T = ForEach_runs_batch_in_order_and_defers_pushes
    [where run = ex_run and st = ex_state_epoll and r = "Some (Failure 2)" and st' = "snd ?R"
       and callback = ex_callback and p = ex_epoll and n = 2 and ?st0.0 = ?S and ?st1.0 = "snd ?D"
       and erun = ex_run and E = "Failure 2" and ?st2.0 = "snd ?J"
       and F = "- 13" and kcallback = ex_callback and kn = 2 and ?kst0.0 = ?KS and ?kst1.0 = "snd ?KD"
       and krun = ex_run and KE = "Failure 2" and ?kst2.0 = "snd ?KJ"]
  from T [THEN conjunct1] fp q pd
  have c1: "jobs (queue (snd ?R)) = [30]" by simp
  from T [THEN conjunct2, THEN conjunct1] d dw j
  have c2: "after_wait_epoll ex_callback ex_run ex_epoll 2 ?S = (Some (Returned (Failure 2)), snd ?J)"
    by simp
  from T [THEN conjunct2, THEN conjunct2] kd kdw kj
  have c3: "after_wait_kqueue (- 13) ex_callback ex_run 2 ?KS = (Some (Returned (Failure 2)), snd ?KJ)"
    by simp
  from f t b pd c1 jt kjt show ?thesis
    by (simp only: c2 c3 fst_conv snd_conv)
qed

text \<open>
  C6. A failing wait call never makes \<open>Polling\<close> return. After a wait call interrupted
  by a signal (\<open>EINTR\<close>, with the negative count the kernel interface reports) the loop
  goes on to the next wait call and nothing but the wait call itself has happened; after
  any other wait error the loop logs the error and goes on to the next wait call. When
  \<open>Polling\<close> does return an error, its last effect is the callback invocation or the job
  run that returned this error. On wait calls that all fail \<open>Polling\<close> does not return.
\<close>

theorem Polling_never_returns_a_wait_error:
  "(wait_err w = Some EINTR \<and> wait_n w < 0 \<and> \<not> wakenUp st \<and> 0 \<le> size_el (el st) \<longrightarrow>
      Polling_loop_epoll callback run p (w # ws) st =
        Polling_loop_epoll callback run p ws
          (st\<lparr>el := (el st)\<lparr>events := kernel_fill (events (el st)) (wait_written w)\<rparr>,
              trace := trace st @ [Sys (EpollWait (fd p) (length (events (el st))) (- 1))]\<rparr>))
   \<and> (wait_err v = Some e \<and> e \<noteq> EINTR \<longrightarrow>
      Polling_loop_epoll callback run p (v # ws) st =
        Polling_loop_epoll callback run p ws
          (st\<lparr>el := (el st)\<lparr>events := kernel_fill (events (el st)) (wait_written v)\<rparr>,
              trace := trace st @ [Sys (EpollWait (fd p) (length (events (el st))) (- 1)), Log e]\<rparr>))
   \<and> (Polling_loop_epoll callback run p ws st = (Returned E, st') \<longrightarrow>
      trace st' \<noteq> [] \<and>
      (callback_error (last (trace st')) = Some E \<or> job_error (last (trace st')) = Some E))
   \<and> ((\<forall>u\<in>set ws. wait_err u \<noteq> None \<and> wait_n u < 0) \<and> \<not> wakenUp st \<and> 0 \<le> size_el (el st) \<longrightarrow>
      fst (Polling_loop_epoll callback run p ws st) = Blocked)
   \<and> (wait_err kw = Some EINTR \<and> wait_n kw < 0 \<and> \<not> wakenUp kst \<and> 0 \<le> size_el (el kst) \<longrightarrow>
      Polling_loop_kqueue F kcallback krun k (kw # kws) kst =
        Polling_loop_kqueue F kcallback krun k kws
          (kst\<lparr>el := (el kst)\<lparr>events := kernel_fill (events (el kst)) (wait_written kw)\<rparr>,
               trace := trace kst @ [Sys (Kevent (kfd k) [] (length (events (el kst))))]\<rparr>))
   \<and> (wait_err kv = Some e \<and> e \<noteq> EINTR \<longrightarrow>
      Polling_loop_kqueue F kcallback krun k (kv # kws) kst =
        Polling_loop_kqueue F kcallback krun k kws
          (kst\<lparr>el := (el kst)\<lparr>events := kernel_fill (events (el kst)) (wait_written kv)\<rparr>,
               trace := trace kst @ [Sys (Kevent (kfd k) [] (length (events (el kst)))), Log e]\<rparr>))
   \<and> (Polling_loop_kqueue F kcallback krun k kws kst = (Returned E, kst') \<longrightarrow>
      trace kst' \<noteq> [] \<and>
      (callback_error (last (trace kst')) = Some E \<or> job_error (last (trace kst')) = Some E))
   \<and> ((\<forall>u\<in>set kws. wait_err u \<noteq> None \<and> wait_n u < 0) \<and> \<not> wakenUp kst \<and> 0 \<le> size_el (el kst) \<longrightarrow>
      fst (Polling_loop_kqueue F kcallback krun k kws kst) = Blocked)"
proof (intro conjI impI)
  assume "wait_err w = Some EINTR \<and> wait_n w < 0 \<and> \<not> wakenUp st \<and> 0 \<le> size_el (el st)"
  then show "Polling_loop_epoll callback run p (w # ws) st =
        Polling_loop_epoll callback run p ws
          (st\<lparr>el := (el st)\<lparr>events := kernel_fill (events (el st)) (wait_written w)\<rparr>,
              trace := trace st @ [Sys (EpollWait (fd p) (length (events (el st))) (- 1))]\<rparr>)"
    by (intro Polling_loop_epoll_skip Polling_iter_epoll_interrupted) simp_all
next
  assume "wait_err v = Some e \<and> e \<noteq> EINTR"
  then show "Polling_loop_epoll callback run p (v # ws) st =
        Polling_loop_epoll callback run p ws
          (st\<lparr>el := (el st)\<lparr>events := kernel_fill (events (el st)) (wait_written v)\<rparr>,
              trace := trace st @ [Sys (EpollWait (fd p) (length (events (el st))) (- 1)), Log e]\<rparr>)"
    by (intro Polling_loop_epoll_skip Polling_iter_epoll_logged) simp_all
next
  assume "Polling_loop_epoll callback run p ws st = (Returned E, st')"
  from Polling_loop_epoll_returned [OF this]
  show "trace st' \<noteq> []"
    and "callback_error (last (trace st')) = Some E \<or> job_error (last (trace st')) = Some E"
    by simp_all
next
  assume "(\<forall>u\<in>set ws. wait_err u \<noteq> None \<and> wait_n u < 0) \<and> \<not> wakenUp st \<and> 0 \<le> size_el (el st)"
  then show "fst (Polling_loop_epoll callback run p ws st) = Blocked"
    by (intro Polling_loop_epoll_failing_waits) simp_all
next
  assume "wait_err kw = Some EINTR \<and> wait_n kw < 0 \<and> \<not> wakenUp kst \<and> 0 \<le> size_el (el kst)"
  then show "Polling_loop_kqueue F kcallback krun k (kw # kws) kst =
        Polling_loop_kqueue F kcallback krun k kws
          (kst\<lparr>el := (el kst)\<lparr>events := kernel_fill (events (el kst)) (wait_written kw)\<rparr>,
               trace := trace kst @ [Sys (Kevent (kfd k) [] (length (events (el kst))))]\<rparr>)"
    by (intro Polling_loop_kqueue_skip Polling_iter_kqueue_interrupted) simp_all
next
  assume "wait_err kv = Some e \<and> e \<noteq> EINTR"
  then show "Polling_loop_kqueue F kcallback krun k (kv # kws) kst =
        Polling_loop_kqueue F kcallback krun k kws
          (kst\<lparr>el := (el kst)\<lparr>events := kernel_fill (events (el kst)) (wait_written kv)\<rparr>,
               trace := trace kst @ [Sys (Kevent (kfd k) [] (length (events (el kst)))), Log e]\<rparr>)"
    by (intro Polling_loop_kqueue_skip Polling_iter_kqueue_logged) simp_all
next
  assume "Polling_loop_kqueue F kcallback krun k kws kst = (Returned E, kst')"
  from Polling_loop_kqueue_returned [OF this]
  show "trace kst' \<noteq> []"
    and "callback_error (last (trace kst')) = Some E \<or> job_error (last (trace kst')) = Some E"
    by simp_all
next
  assume "(\<forall>u\<in>set kws. wait_err u \<noteq> None \<and> wait_n u < 0) \<and> \<not> wakenUp kst \<and> 0 \<le> size_el (el kst)"
  then show "fst (Polling_loop_kqueue F kcallback krun k kws kst) = Blocked"
    by (intro Polling_loop_kqueue_failing_waits) simp_all
qed

text \<open>
  C6, on the example: an interrupted wait call followed by a wait call that fails with
  \<open>EBADF\<close> leaves \<open>Polling\<close> blocked in its third wait call, with only the error logged;
  an interrupted wait call followed by the batch on which the callback fails makes
  \<open>Polling\<close> return the error of the callback.
\<close>

theorem Polling_never_returns_a_wait_error_witness:
  "fst (Polling_loop_epoll ex_callback ex_run ex_epoll [ex_interrupted, ex_failed] ex_state_epoll) = Blocked
   \<and> trace (snd (Polling_loop_epoll ex_callback ex_run ex_epoll [ex_interrupted, ex_failed] ex_state_epoll))
       = [Sys (EpollWait 3 2 (- 1)), Sys (EpollWait 3 2 (- 1)), Log (Errno 9), Sys (EpollWait 3 2 (- 1))]
   \<and> fst (Polling_loop_epoll ex_callback ex_run ex_epoll [ex_interrupted, ex_wait_epoll] ex_state_epoll) = Returned (Failure 1)
   \<and> callback_error (last (trace (snd (Polling_loop_epoll ex_callback ex_run ex_epoll [ex_interrupted, ex_wait_epoll] ex_state_epoll))))
       = Some (Failure 1)
   \<and> fst (Polling_loop_kqueue (- 13) ex_callback ex_run ex_kqueue [ex_interrupted, ex_failed] ex_state_kqueue) = Blocked
   \<and> trace (snd (Polling_loop_kqueue (- 13) ex_callback ex_run ex_kqueue [ex_interrupted, ex_failed] ex_state_kqueue))
       = [Sys (Kevent 3 [] 2), Sys (Kevent 3 [] 2), Log (Errno 9), Sys (Kevent 3 [] 2)]
   \<and> fst (Polling_loop_kqueue (- 13) ex_callback ex_run ex_kqueue [ex_interrupted, ex_wait_kqueue] ex_state_kqueue) = Returned (Failure 1)
   \<and> callback_error (last (trace (snd (Polling_loop_kqueue (- 13) ex_callback ex_run ex_kqueue [ex_interrupted, ex_wait_kqueue] ex_state_kqueue))))
       = Some (Failure 1)"
proof -
  let ?EB = "Polling_loop_epoll ex_callback ex_run ex_epoll [ex_interrupted, ex_failed] ex_state_epoll"
  let ?ER = "Polling_loop_epoll ex_callback ex_run ex_epoll [ex_interrupted, ex_wait_epoll] ex_state_epoll"
  have EH1: "wait_err (ex_interrupted :: EpollEvent wait_result) = Some EINTR \<and> wait_n (ex_interrupted :: EpollEvent wait_result) < 0
             \<and> \<not> wakenUp ex_state_epoll \<and> 0 \<le> size_el (el ex_state_epoll)"
    by (simp add: ex_interrupted_def ex_state_epoll_def newEventList_def)
  have EH2: "wait_err (ex_failed :: EpollEvent wait_result) = Some (Errno 9) \<and> Errno 9 \<noteq> EINTR"
    by (simp add: ex_failed_def EINTR_def)
  have EH4: "(\<forall>u\<in>set [ex_interrupted, ex_failed :: EpollEvent wait_result]. wait_err u \<noteq> None \<and> wait_n u < 0)
             \<and> \<not> wakenUp ex_state_epoll \<and> 0 \<le> size_el (el ex_state_epoll)"
    by (simp add: ex_interrupted_def ex_failed_def ex_state_epoll_def newEventList_def)
  have Ef: "fst ?ER = Returned (Failure 1)" by code_simp
  then have EH3: "?ER = (Returned (Failure 1), snd ?ER)" by (metis prod.collapse)
  have Et: "trace (snd ?EB) = [Sys (EpollWait 3 2 (- 1)), Sys (EpollWait 3 2 (- 1)), Log (Errno 9), Sys (EpollWait 3 2 (- 1))]"
    by code_simp
  have El: "callback_error (last (trace (snd ?ER))) = Some (Failure 1)" by code_simp
  let ?KB = "Polling_loop_kqueue (- 13) ex_callback ex_run ex_kqueue [ex_interrupted, ex_failed] ex_state_kqueue"
  let ?KR = "Polling_loop_kqueue (- 13) ex_callback ex_run ex_kqueue [ex_interrupted, ex_wait_kqueue] ex_state_kqueue"
  have KH1: "wait_err (ex_interrupted :: Kevent_t wait_result) = Some EINTR \<and> wait_n (ex_interrupted :: Kevent_t wait_result) < 0
             \<and> \<not> wakenUp ex_state_kqueue \<and> 0 \<le> size_el (el ex_state_kqueue)"
    by (simp add: ex_interrupted_def ex_state_kqueue_def newEventList_def)
  have KH2: "wait_err (ex_failed :: Kevent_t wait_result) = Some (Errno 9) \<and> Errno 9 \<noteq> EINTR"
    by (simp add: ex_failed_def EINTR_def)
  have KH4: "(\<forall>u\<in>set [ex_interrupted, ex_failed :: Kevent_t wait_result]. wait_err u \<noteq> None \<and> wait_n u < 0)
             \<and> \<not> wakenUp ex_state_kqueue \<and> 0 \<le> size_el (el ex_state_kqueue)"
    by (simp add: ex_interrupted_def ex_failed_def ex_state_kqueue_def newEventList_def)
  have Kf: "fst ?KR = Returned (Failure 1)" by code_simp
  then have KH3: "?KR = (Returned (Failure 1), snd ?KR)" by (metis prod.collapse)
  have Kt: "trace (snd ?KB) = [Sys (Kevent 3 [] 2), Sys (Kevent 3 [] 2), Log (Errno 9), Sys (Kevent 3 [] 2)]"
    by code_simp
  have Kl: "callback_error (last (trace (snd ?KR))) = Some (Failure 1)" by code_simp
  note T = Polling_never_returns_a_wait_error
    [where callback = ex_callback and run = ex_run and p = ex_epoll and w = ex_interrupted
       and v = ex_failed and e = "Errno 9" and E = "Failure 1"
       and F = "- 13" and kcallback = ex_callback and krun = ex_run and k = ex_kqueue
       and kw = ex_interrupted and kv = ex_failed]
  note T1 = T [where ws = "[ex_failed]" and st = ex_state_epoll and kws = "[ex_failed]" and kst = ex_state_kqueue]
  note T2 = T [where ws = "[ex_interrupted, ex_failed]" and st = ex_state_epoll
                 and kws = "[ex_interrupted, ex_failed]" and kst = ex_state_kqueue]
  note T3 = T [where ws = "[ex_interrupted, ex_wait_epoll]" and st = ex_state_epoll and st' = "snd ?ER"
                 and kws = "[ex_interrupted, ex_wait_kqueue]" and kst = ex_state_kqueue and kst' = "snd ?KR"]
  note e1 = T1 [THEN conjunct1, THEN mp, OF EH1]
  note e2 = T1 [THEN conjunct2, THEN conjunct1, THEN mp, OF EH2]
  note e3 = T3 [THEN conjunct2, THEN conjunct2, THEN conjunct1, THEN mp, OF EH3]
  note e4 = T2 [THEN conjunct2, THEN conjunct2, THEN conjunct2, THEN conjunct1, THEN mp, OF EH4]
  note k1 = T1 [THEN conjunct2, THEN conjunct2, THEN conjunct2, THEN conjunct2, THEN conjunct1, THEN mp, OF KH1]
  note k2 = T1 [THEN conjunct2, THEN conjunct2, THEN conjunct2, THEN conjunct2, THEN conjunct2,
                THEN conjunct1, THEN mp, OF KH2]
  note k3 = T3 [THEN conjunct2, THEN conjunct2, THEN conjunct2, THEN conjunct2, THEN conjunct2,
                THEN conjunct2, THEN conjunct1, THEN mp, OF KH3]
  note k4 = T2 [THEN conjunct2, THEN conjunct2, THEN conjunct2, THEN conjunct2, THEN conjunct2,
                THEN conjunct2, THEN conjunct2, THEN mp, OF KH4]
  show ?thesis
    by (insert e1 e2 e3 k1 k2 k3, intro conjI) (rule e4 Et Ef El k4 Kt Kf Kl)+
qed

text \<open>
  C7. On kqueue the callback invocations of a batch are those of its records with an
  identifier other than 0, in order, each with the filter \<open>kq_filter\<close> of the record (all
  of them when the loop runs to the end of the batch, a first part when a callback
  fails or the batch overruns the buffer). \<open>kq_filter\<close> is \<open>EVFilterSock\<close> exactly when
  the flags of the record have \<open>EV_EOF\<close> (bit 15) or \<open>EV_ERROR\<close> (bit 14) set, whatever
  filter the record carries, and the filter of the record otherwise. For a value of
  \<open>EVFilterSock\<close> other than \<open>EVFILT_READ\<close> and \<open>EVFILT_WRITE\<close>, as the spec describes
  the constant, a record with one of the two flags is never reported as plain read or
  write.
\<close>

theorem kqueue_reports_socket_error_filter:
  "(events_loop_kqueue EVFilterSock callback n 0 st = (fl, st') \<longrightarrow>
      prefix (callbacks_of (drop (length (trace st)) (trace st')))
        (dispatched_kqueue EVFilterSock (take (nat n) (events (el st))))
      \<and> (fl = Next \<longrightarrow>
           callbacks_of (drop (length (trace st)) (trace st'))
             = dispatched_kqueue EVFilterSock (take (nat n) (events (el st)))))
   \<and> kq_filter EVFilterSock e =
       (if bit (Flags e) 15 \<or> bit (Flags e) 14 then EVFilterSock else Filter e)
   \<and> (Flags e AND EV_EOF \<noteq> 0 \<or> Flags e AND EV_ERROR \<noteq> 0 \<longrightarrow> kq_filter EVFilterSock e = EVFilterSock)
   \<and> (Flags e AND EV_EOF = 0 \<and> Flags e AND EV_ERROR = 0 \<longrightarrow> kq_filter EVFilterSock e = Filter e)
   \<and> (EVFilterSock \<noteq> EVFILT_READ \<and> EVFilterSock \<noteq> EVFILT_WRITE
        \<and> (Flags e AND EV_EOF \<noteq> 0 \<or> Flags e AND EV_ERROR \<noteq> 0)
      \<longrightarrow> kq_filter EVFilterSock e \<noteq> EVFILT_READ \<and> kq_filter EVFilterSock e \<noteq> EVFILT_WRITE)"
proof (intro conjI impI)
  assume a: "events_loop_kqueue EVFilterSock callback n 0 st = (fl, st')"
  from events_loop_kqueue_dispatched [OF a] obtain new where new:
    "trace st' = trace st @ new"
    "prefix (callbacks_of new) (dispatched_kqueue EVFilterSock (drop (nat 0) (take (nat n) (events (el st)))))"
    "fl = Next \<longrightarrow>
       callbacks_of new = dispatched_kqueue EVFilterSock (drop (nat 0) (take (nat n) (events (el st))))"
    by auto
  from new(1) have d: "drop (length (trace st)) (trace st') = new" by simp
  from new(2) show "prefix (callbacks_of (drop (length (trace st)) (trace st')))
        (dispatched_kqueue EVFilterSock (take (nat n) (events (el st))))"
    by (simp add: d)
  assume "fl = Next"
  with new(3) show "callbacks_of (drop (length (trace st)) (trace st'))
             = dispatched_kqueue EVFilterSock (take (nat n) (events (el st)))"
    by (simp add: d)
next
  show "kq_filter EVFilterSock e =
       (if bit (Flags e) 15 \<or> bit (Flags e) 14 then EVFilterSock else Filter e)"
    by (rule kq_filter_bits)
qed (auto simp: kq_filter_def)

text \<open>
  C7, on the example: of a batch with a readable record for descriptor 5 and a
  writable record for descriptor 6 that carries \<open>EV_ERROR\<close>, the callback gets descriptor
  5 with the read filter and descriptor 6 with the socket-error filter.
\<close>

theorem kqueue_reports_socket_error_filter_witness:
  "fst (events_loop_kqueue (- 13) ex_callback 2 0
          (ex_state_kqueue\<lparr>el := \<lparr>size_el = 2, events = wait_written ex_full_kqueue\<rparr>\<rparr>)) = Next
   \<and> callbacks_of (trace (snd (events_loop_kqueue (- 13) ex_callback 2 0
          (ex_state_kqueue\<lparr>el := \<lparr>size_el = 2, events = wait_written ex_full_kqueue\<rparr>\<rparr>))))
       = [(5, EVFILT_READ), (6, - 13)]
   \<and> dispatched_kqueue (- 13) (wait_written ex_full_kqueue) = [(5, EVFILT_READ), (6, - 13)]
   \<and> kq_filter (- 13) \<lparr>Ident = 6, Filter = EVFILT_WRITE, Flags = EV_ERROR, Fflags = 0\<rparr> = - 13
   \<and> kq_filter (- 13) \<lparr>Ident = 5, Filter = EVFILT_READ, Flags = 0, Fflags = 0\<rparr> = EVFILT_READ
   \<and> (- 13 :: 16 word) \<noteq> EVFILT_READ \<and> (- 13 :: 16 word) \<noteq> EVFILT_WRITE"
proof -
  let ?S = "ex_state_kqueue\<lparr>el := \<lparr>size_el = 2, events = wait_written ex_full_kqueue\<rparr>\<rparr>"
  let ?D = "events_loop_kqueue (- 13) ex_callback 2 0 ?S"
  let ?e = "\<lparr>Ident = 6, Filter = EVFILT_WRITE, Flags = EV_ERROR, Fflags = 0\<rparr>"
  have f: "fst ?D = Next" by code_simp
  then have d: "?D = (Next, snd ?D)" by (metis prod.collapse)
  have s: "trace ?S = []" "take (nat 2) (events (el ?S)) = wait_written ex_full_kqueue"
    by (simp_all add: ex_state_kqueue_def ex_full_kqueue_def)
  have v: "dispatched_kqueue (- 13) (wait_written ex_full_kqueue) = [(5, EVFILT_READ), (6, - 13)]"
    by code_simp
  have h: "Flags ?e AND EV_EOF \<noteq> 0 \<or> Flags ?e AND EV_ERROR \<noteq> 0"
    by (simp add: EV_ERROR_def)
  have g: "(- 13 :: 16 word) \<noteq> EVFILT_READ \<and> (- 13 :: 16 word) \<noteq> EVFILT_WRITE"
    by (simp add: EVFILT_READ_def EVFILT_WRITE_def)
  have "Flags \<lparr>Ident = 5, Filter = EVFILT_READ, Flags = 0, Fflags = 0\<rparr> AND EV_EOF = 0
        \<and> Flags \<lparr>Ident = 5, Filter = EVFILT_READ, Flags = 0, Fflags = 0\<rparr> AND EV_ERROR = 0"
    by simp
  from kqueue_reports_socket_error_filter
    [where EVFilterSock = "- 13" and e = "\<lparr>Ident = 5, Filter = EVFILT_READ, Flags = 0, Fflags = 0\<rparr>",
     THEN conjunct2, THEN conjunct2, THEN conjunct2, THEN conjunct1, THEN mp, OF this]
  have r: "kq_filter (- 13) \<lparr>Ident = 5, Filter = EVFILT_READ, Flags = 0, Fflags = 0\<rparr> = EVFILT_READ"
    by simp
  note T = kqueue_reports_socket_error_filter
    [where EVFilterSock = "- 13" and callback = ex_callback and n = 2 and st = ?S and fl = Next
       and st' = "snd ?D" and e = ?e]
  from T [THEN conjunct1, THEN mp, OF d] s v
  have c: "callbacks_of (trace (snd ?D)) = [(5, EVFILT_READ), (6, - 13)]" by simp
  from T [THEN conjunct2, THEN conjunct2, THEN conjunct1, THEN mp, OF h]
  have k: "kq_filter (- 13) ?e = - 13" .
  note T [THEN conjunct2, THEN conjunct2, THEN conjunct2, THEN conjunct2, THEN mp, OF conjI [OF conjunct1 [OF g] conjI [OF conjunct2 [OF g] h]]]
  then show ?thesis
    by (insert f c v k r g, intro conjI) simp_all
qed

text \<open>
  C10. No invocation of the callback by \<open>Polling\<close> carries the wake identifier: on
  epoll the descriptor handed to the callback is never the wake handle of the poller,
  on kqueue it is never 0. A record for the wake handle is consumed by the dispatch
  loop, which sets \<open>wakenUp\<close> and reads the wake handle; on kqueue every record with
  identifier 0, whatever its filter (so also one for a registered descriptor 0), is
  consumed by setting \<open>wakenUp\<close>, with no effect at all.
\<close>

theorem callback_never_gets_the_wake_identifier:
  "(Polling_loop_epoll callback run p ws st = (out, st') \<longrightarrow>
      list_all (\<lambda>x. callback_fd x \<noteq> Some (wfd p)) (drop (length (trace st)) (trace st')))
   \<and> (Polling_epoll InitEvents callback run p ws s0 = (out0, st0) \<longrightarrow>
      list_all (\<lambda>x. callback_fd x \<noteq> Some (wfd p)) (trace st0))
   \<and> (i < n \<and> 0 \<le> i \<and> i < int (length (events (el st))) \<and> sint (Fd (events (el st) ! nat i)) = wfd p \<longrightarrow>
      events_loop_epoll callback p n i st =
        events_loop_epoll callback p n (i + 1)
          (st\<lparr>wakenUp := True, trace := trace st @ [Sys (SysRead (wfd p) 8)]\<rparr>))
   \<and> (Polling_loop_kqueue F kcallback krun k kws kst = (kout, kst') \<longrightarrow>
      list_all (\<lambda>x. callback_fd x \<noteq> Some 0) (drop (length (trace kst)) (trace kst')))
   \<and> (Polling_kqueue InitEvents F kcallback krun k kws ks0 = (kout0, kst0) \<longrightarrow>
      list_all (\<lambda>x. callback_fd x \<noteq> Some 0) (trace kst0))
   \<and> (i < n \<and> 0 \<le> i \<and> i < int (length (events (el kst))) \<and> Ident (events (el kst) ! nat i) = 0 \<longrightarrow>
      events_loop_kqueue F kcallback n i kst =
        events_loop_kqueue F kcallback n (i + 1) (kst\<lparr>wakenUp := True\<rparr>))"
proof (intro conjI impI)
  assume "Polling_loop_epoll callback run p ws st = (out, st')"
  from Polling_loop_epoll_trace [OF this] obtain new where
    "trace st' = trace st @ new" "run_shape (wfd p) out new" by blast
  then show "list_all (\<lambda>x. callback_fd x \<noteq> Some (wfd p)) (drop (length (trace st)) (trace st'))"
    by (simp add: run_shape_def)
next
  assume "Polling_epoll InitEvents callback run p ws s0 = (out0, st0)"
  from Polling_loop_epoll_trace [OF this [unfolded Polling_epoll_def]] obtain new where
    "trace st0 = [] @ new" "run_shape (wfd p) out0 new" by auto
  then show "list_all (\<lambda>x. callback_fd x \<noteq> Some (wfd p)) (trace st0)"
    by (simp add: run_shape_def)
next
  assume "i < n \<and> 0 \<le> i \<and> i < int (length (events (el st))) \<and> sint (Fd (events (el st) ! nat i)) = wfd p"
  then show "events_loop_epoll callback p n i st =
        events_loop_epoll callback p n (i + 1)
          (st\<lparr>wakenUp := True, trace := trace st @ [Sys (SysRead (wfd p) 8)]\<rparr>)"
    by (intro events_loop_epoll_wake) simp_all
next
  assume "Polling_loop_kqueue F kcallback krun k kws kst = (kout, kst')"
  from Polling_loop_kqueue_trace [OF this] obtain new where
    "trace kst' = trace kst @ new" "run_shape 0 kout new" by blast
  then show "list_all (\<lambda>x. callback_fd x \<noteq> Some 0) (drop (length (trace kst)) (trace kst'))"
    by (simp add: run_shape_def)
next
  assume "Polling_kqueue InitEvents F kcallback krun k kws ks0 = (kout0, kst0)"
  from Polling_loop_kqueue_trace [OF this [unfolded Polling_kqueue_def]] obtain new where
    "trace kst0 = [] @ new" "run_shape 0 kout0 new" by auto
  then show "list_all (\<lambda>x. callback_fd x \<noteq> Some 0) (trace kst0)"
    by (simp add: run_shape_def)
next
  assume "i < n \<and> 0 \<le> i \<and> i < int (length (events (el kst))) \<and> Ident (events (el kst) ! nat i) = 0"
  then show "events_loop_kqueue F kcallback n i kst =
        events_loop_kqueue F kcallback n (i + 1) (kst\<lparr>wakenUp := True\<rparr>)"
    by (intro events_loop_kqueue_wake) simp_all
qed

text \<open>
  C10, on the example: the batch holds a wake notification (on kqueue a record with
  identifier 0 and the read filter) and a record for descriptor 5. The callback is
  invoked once, for descriptor 5; the first record only sets \<open>wakenUp\<close> (and, on epoll,
  reads the wake handle 4).
\<close>

theorem callback_never_gets_the_wake_identifier_witness:
  "callbacks_of (trace (snd (Polling_epoll 2 ex_callback ex_run ex_epoll [ex_woken_epoll] 0)))
     = [(5, EPOLLIN)]
   \<and> list_all (\<lambda>x. callback_fd x \<noteq> Some 4)
         (trace (snd (Polling_epoll 2 ex_callback ex_run ex_epoll [ex_woken_epoll] 0)))
   \<and> events_loop_epoll ex_callback ex_epoll 2 0
         (ex_state_epoll\<lparr>el := \<lparr>size_el = 2, events = wait_written ex_woken_epoll\<rparr>\<rparr>)
       = events_loop_epoll ex_callback ex_epoll 2 1
           (ex_state_epoll\<lparr>el := \<lparr>size_el = 2, events = wait_written ex_woken_epoll\<rparr>,
                           wakenUp := True, trace := [Sys (SysRead 4 8)]\<rparr>)
   \<and> callbacks_of (trace (snd (Polling_kqueue 2 (- 13) ex_callback ex_run ex_kqueue [ex_woken_kqueue] 0)))
     = [(5, EVFILT_READ)]
   \<and> list_all (\<lambda>x. callback_fd x \<noteq> Some 0)
         (trace (snd (Polling_kqueue 2 (- 13) ex_callback ex_run ex_kqueue [ex_woken_kqueue] 0)))
   \<and> events_loop_kqueue (- 13) ex_callback 2 0
         (ex_state_kqueue\<lparr>el := \<lparr>size_el = 2, events = wait_written ex_woken_kqueue\<rparr>\<rparr>)
       = events_loop_kqueue (- 13) ex_callback 2 1
           (ex_state_kqueue\<lparr>el := \<lparr>size_el = 2, events = wait_written ex_woken_kqueue\<rparr>,
                            wakenUp := True\<rparr>)"
proof -
  let ?P = "Polling_epoll 2 ex_callback ex_run ex_epoll [ex_woken_epoll] 0"
  let ?L = "Polling_loop_epoll ex_callback ex_run ex_epoll [ex_woken_epoll] ex_state_epoll"
  let ?S = "ex_state_epoll\<lparr>el := \<lparr>size_el = 2, events = wait_written ex_woken_epoll\<rparr>\<rparr>"
  let ?KP = "Polling_kqueue 2 (- 13) ex_callback ex_run ex_kqueue [ex_woken_kqueue] 0"
  let ?KL = "Polling_loop_kqueue (- 13) ex_callback ex_run ex_kqueue [ex_woken_kqueue] ex_state_kqueue"
  let ?KS = "ex_state_kqueue\<lparr>el := \<lparr>size_el = 2, events = wait_written ex_woken_kqueue\<rparr>\<rparr>"
  have w: "wfd ex_epoll = 4" by (simp add: ex_epoll_def)
  have hs: "(0::int) < 2 \<and> (0::int) \<le> 0 \<and> 0 < int (length (events (el ?S)))
            \<and> sint (Fd (events (el ?S) ! nat 0)) = wfd ex_epoll"
    by (simp add: ex_woken_epoll_def ex_epoll_def)
  have hk: "(0::int) < 2 \<and> (0::int) \<le> 0 \<and> 0 < int (length (events (el ?KS)))
            \<and> Ident (events (el ?KS) ! nat 0) = 0"
    by (simp add: ex_woken_kqueue_def)
  have ts: "trace ?S = []" and tk: "trace ?KS = []"
    by (simp_all add: ex_state_epoll_def ex_state_kqueue_def)
  have c: "callbacks_of (trace (snd ?P)) = [(5, EPOLLIN)]" by code_simp
  have kc: "callbacks_of (trace (snd ?KP)) = [(5, EVFILT_READ)]" by code_simp
  note T = callback_never_gets_the_wake_identifier
    [where callback = ex_callback and run = ex_run and p = ex_epoll and ws = "[ex_woken_epoll]"
       and st = ex_state_epoll and out = "fst ?L" and st' = "snd ?L"
       and InitEvents = 2 and ?s0.0 = 0 and ?out0.0 = "fst ?P" and ?st0.0 = "snd ?P"
       and F = "- 13" and kcallback = ex_callback and krun = ex_run and k = ex_kqueue
       and kws = "[ex_woken_kqueue]" and kst = ex_state_kqueue and kout = "fst ?KL" and kst' = "snd ?KL"
       and ?ks0.0 = 0 and ?kout0.0 = "fst ?KP" and ?kst0.0 = "snd ?KP"]
  note U = callback_never_gets_the_wake_identifier
    [where callback = ex_callback and p = ex_epoll and i = 0 and n = 2 and st = ?S
       and F = "- 13" and kcallback = ex_callback and kst = ?KS]
  have a: "list_all (\<lambda>x. callback_fd x \<noteq> Some 4) (trace (snd ?P))"
    using T [THEN conjunct2, THEN conjunct1, THEN mp, OF prod.collapse [symmetric]] w by simp
  have ka: "list_all (\<lambda>x. callback_fd x \<noteq> Some 0) (trace (snd ?KP))"
    using T [THEN conjunct2, THEN conjunct2, THEN conjunct2, THEN conjunct2, THEN conjunct1, THEN mp,
             OF prod.collapse [symmetric]] by simp
  have b: "events_loop_epoll ex_callback ex_epoll 2 0 ?S
       = events_loop_epoll ex_callback ex_epoll 2 1
           (?S\<lparr>wakenUp := True, trace := [Sys (SysRead 4 8)]\<rparr>)"
    using U [THEN conjunct2, THEN conjunct2, THEN conjunct1, THEN mp, OF hs] w ts by simp
  have kb: "events_loop_kqueue (- 13) ex_callback 2 0 ?KS
       = events_loop_kqueue (- 13) ex_callback 2 1 (?KS\<lparr>wakenUp := True\<rparr>)"
    using U [THEN conjunct2, THEN conjunct2, THEN conjunct2, THEN conjunct2, THEN conjunct2, THEN mp, OF hk]
    by simp
  from c a b kc ka kb show ?thesis by blast
qed

end
